theory Spec2Isabelle
  imports Complex_Main
begin

section \<open>JavaScript values\<close>

text \<open>
  A JavaScript string is a sequence of UTF-16 code units, and \<open>length\<close> counts code
  units; it is modelled as the list of its code units.  \<open>js\<close> embeds an ASCII literal.
  JavaScript numbers that hold coordinates are modelled as rationals (the layout only adds,
  subtracts and halves integers); clock readings and counters are naturals.
\<close>

type_synonym jstring = "nat list"

definition js :: "string \<Rightarrow> jstring" where
  "js s = map of_char s"

text \<open>Truthiness of a value of type \<open>string | null | undefined\<close>: the empty string is falsy.\<close>

definition truthy :: "jstring option \<Rightarrow> bool" where
  "truthy v = (case v of None \<Rightarrow> False | Some s \<Rightarrow> s \<noteq> [])"

text \<open>\<open>a || b\<close> on strings.\<close>

definition orElse :: "jstring option \<Rightarrow> jstring \<Rightarrow> jstring" where
  "orElse v d = (case v of None \<Rightarrow> d | Some s \<Rightarrow> if s = [] then d else s)"

text \<open>The decimal rendering of a number inside a template literal.\<close>

fun decimal :: "nat \<Rightarrow> jstring" where
  "decimal n = (if n < 10 then [48 + n] else decimal (n div 10) @ [48 + n mod 10])"

declare decimal.simps [simp del]

section \<open>Data model (src/types/index.ts)\<close>

datatype NodeType = user | assistant | system | input | loading | conversation

datatype SourceType = fromUser | fromAssistant

record QuotedContent =
  qtext :: jstring
  nodeId :: jstring
  sourceType :: SourceType
  fullContext :: "jstring option"

record Position =
  pos_x :: rat
  pos_y :: rat

record ChatNode =
  node_id :: jstring
  type :: NodeType
  content :: jstring
  parentId :: "jstring option"
  children :: "jstring list"
  model :: jstring
  timestamp :: nat
  position :: Position
  userMessage :: "jstring option"
  assistantMessage :: "jstring option"
  thinkingContent :: "jstring option"
  quotedContent :: "QuotedContent option"

record ChatSession =
  session_id :: jstring
  title :: jstring
  nodes :: "jstring \<rightharpoonup> ChatNode"
  rootNodeId :: jstring
  createdAt :: nat
  updatedAt :: nat
  defaultModelId :: "jstring option"

text \<open>
  \<open>Partial<ChatNode>\<close>: a field is \<open>None\<close> when the key is absent from the object literal
  and \<open>Some v\<close> when it is present; an optional field that is present with the value
  \<open>undefined\<close> is \<open>Some None\<close>, and the spread overwrites the old value with it.
\<close>

record NodeUpdates =
  u_node_id :: "jstring option"
  u_type :: "NodeType option"
  u_content :: "jstring option"
  u_parentId :: "jstring option option"
  u_children :: "jstring list option"
  u_model :: "jstring option"
  u_timestamp :: "nat option"
  u_position :: "Position option"
  u_userMessage :: "jstring option option"
  u_assistantMessage :: "jstring option option"
  u_thinkingContent :: "jstring option option"
  u_quotedContent :: "QuotedContent option option"

definition noUpdates :: NodeUpdates where
  "noUpdates = \<lparr>u_node_id = None, u_type = None, u_content = None, u_parentId = None,
     u_children = None, u_model = None, u_timestamp = None, u_position = None,
     u_userMessage = None, u_assistantMessage = None, u_thinkingContent = None,
     u_quotedContent = None\<rparr>"

definition overwrite :: "'a option \<Rightarrow> 'a \<Rightarrow> 'a" where
  "overwrite u old = (case u of None \<Rightarrow> old | Some v \<Rightarrow> v)"

text \<open>The object spread \<open>{...node, ...updates}\<close>.\<close>

definition spread :: "ChatNode \<Rightarrow> NodeUpdates \<Rightarrow> ChatNode" where
  "spread n u = \<lparr>node_id = overwrite (u_node_id u) (node_id n),
     type = overwrite (u_type u) (type n),
     content = overwrite (u_content u) (content n),
     parentId = overwrite (u_parentId u) (parentId n),
     children = overwrite (u_children u) (children n),
     model = overwrite (u_model u) (model n),
     timestamp = overwrite (u_timestamp u) (timestamp n),
     position = overwrite (u_position u) (position n),
     userMessage = overwrite (u_userMessage u) (userMessage n),
     assistantMessage = overwrite (u_assistantMessage u) (assistantMessage n),
     thinkingContent = overwrite (u_thinkingContent u) (thinkingContent n),
     quotedContent = overwrite (u_quotedContent u) (quotedContent n)\<rparr>"

section \<open>The chat store (src/stores/chatStore.ts)\<close>

record ChatStore =
  sessions :: "jstring \<rightharpoonup> ChatSession"
  currentSessionId :: "jstring option"
  currentSession :: "ChatSession option"
  selectedNodeId :: "jstring option"
  store_quotedContent :: "QuotedContent option"
  isLoading :: bool

text \<open>
  The store together with what its collaborators have seen: \<open>persisted\<close> is the list of
  sessions passed to \<open>sessionAPI.updateSession\<close>, in call order, \<open>created\<close> the list passed to
  \<open>sessionAPI.createSession\<close>, \<open>alerts\<close> the messages shown with \<open>alert\<close>, and \<open>sent\<close> the
  message lists (role and content of every turn) passed to \<open>sendAIMessage\<close>.

  An operation that awaits the persistence call before it writes the store takes the
  outcome of that call as the argument \<open>ok\<close> (the promise resolved or rejected), and the
  value of \<open>Date.now()\<close> as the argument \<open>now\<close>.  Node identifiers are assumed not to be
  names of properties that every JavaScript object inherits (such as \<open>constructor\<close>), so
  that a lookup in a \<open>Record\<close> is a lookup in a map.
\<close>

record World =
  store :: ChatStore
  persisted :: "ChatSession list"
  created :: "ChatSession list"
  alerts :: "jstring list"
  sent :: "(NodeType \<times> jstring) list list"

definition initialStore :: ChatStore where
  "initialStore = \<lparr>sessions = Map.empty, currentSessionId = None, currentSession = None,
     selectedNodeId = None, store_quotedContent = None, isLoading = False\<rparr>"

definition initialWorld :: World where
  "initialWorld = \<lparr>store = initialStore, persisted = [], created = [], alerts = [], sent = []\<rparr>"

definition newSessionTitle :: jstring where
  \<comment> \<open>the three code units of the default title of a session\<close>
  "newSessionTitle = [26032, 23545, 35805]"

definition rootNode :: "nat \<Rightarrow> ChatNode" where
  "rootNode now = \<lparr>node_id = js ''root'', type = input, content = [], parentId = None,
     children = [], model = [], timestamp = now, position = \<lparr>pos_x = 250, pos_y = 50\<rparr>,
     userMessage = None, assistantMessage = None, thinkingContent = None,
     quotedContent = None\<rparr>"

definition newSession :: "nat \<Rightarrow> jstring option \<Rightarrow> ChatSession" where
  "newSession now defaultModel = \<lparr>session_id = js ''session-'' @ decimal now,
     title = newSessionTitle, nodes = [js ''root'' \<mapsto> rootNode now],
     rootNodeId = js ''root'', createdAt = now, updatedAt = now,
     defaultModelId = defaultModel\<rparr>"

definition createSession :: "jstring option \<Rightarrow> bool \<Rightarrow> nat \<Rightarrow> World \<Rightarrow> World" where
  "createSession defaultModel ok now w =
     (let session = newSession now defaultModel; st = store w in
      w\<lparr>created := created w @ [session],
        store := (if ok
          then st\<lparr>sessions := (sessions st)(session_id session \<mapsto> session),
                  currentSessionId := Some (session_id session),
                  currentSession := Some session,
                  selectedNodeId := Some (js ''root'')\<rparr>
          else st)\<rparr>)"

definition updateSessionTitle :: "jstring \<Rightarrow> jstring \<Rightarrow> bool \<Rightarrow> nat \<Rightarrow> World \<Rightarrow> World" where
  "updateSessionTitle sessionId newTitle ok now w =
     (let st = store w in
      case sessions st sessionId of
        None \<Rightarrow> w
      | Some session \<Rightarrow>
          (let updatedSession = session\<lparr>title := newTitle, updatedAt := now\<rparr>;
               newSessions = (sessions st)(sessionId \<mapsto> updatedSession)
           in w\<lparr>persisted := persisted w @ [updatedSession],
                 store := (if ok
                   then st\<lparr>sessions := newSessions,
                           currentSession := (if currentSessionId st = Some sessionId
                                              then Some updatedSession else currentSession st)\<rparr>
                   else st)\<rparr>))"

text \<open>
  \<open>addNode\<close> computes the updated session from the store as it is when called, sends it to
  the persistence collaborator, and writes it to the store once that call has succeeded.
  \<open>addNode_session\<close> is the session it computes (\<open>None\<close> when it returns at the guard),
  \<open>addNode_commit\<close> the later write, which uses the \<open>sessions\<close> read at the call.
\<close>

definition addNode_nodes :: "ChatNode \<Rightarrow> (jstring \<rightharpoonup> ChatNode) \<Rightarrow> (jstring \<rightharpoonup> ChatNode)" where
  "addNode_nodes node ns =
     (let updatedNodes = ns(node_id node \<mapsto> node) in
      case parentId node of
        None \<Rightarrow> updatedNodes
      | Some p \<Rightarrow>
          (if p = [] then updatedNodes
           else case updatedNodes p of
             None \<Rightarrow> updatedNodes
           | Some pn \<Rightarrow> updatedNodes(p \<mapsto> pn\<lparr>children := children pn @ [node_id node]\<rparr>)))"

definition addNode_session :: "ChatNode \<Rightarrow> nat \<Rightarrow> ChatStore \<Rightarrow> ChatSession option" where
  "addNode_session node now st =
     (case currentSession st of
        None \<Rightarrow> None
      | Some cs \<Rightarrow>
          if \<not> truthy (currentSessionId st) then None
          else Some (cs\<lparr>nodes := addNode_nodes node (nodes cs), updatedAt := now\<rparr>))"

definition addNode_commit :: "ChatStore \<Rightarrow> ChatSession \<Rightarrow> ChatStore \<Rightarrow> ChatStore" where
  "addNode_commit called updatedSession st =
     st\<lparr>sessions := (sessions called)(the (currentSessionId called) \<mapsto> updatedSession),
        currentSession := Some updatedSession\<rparr>"

text \<open>
  \<open>addNode_call\<close> is \<open>addNode\<close> up to its \<open>await\<close>: the persistence call is made and the store
  is not written yet.  \<open>addNode_resolve\<close> is what happens when that call has resolved, for the
  call made in the store \<open>called\<close>.  \<open>addNode\<close> is the two in a row, with nothing in between.
\<close>

definition addNode_call :: "ChatNode \<Rightarrow> nat \<Rightarrow> World \<Rightarrow> World" where
  "addNode_call node now w =
     (case addNode_session node now (store w) of
        None \<Rightarrow> w
      | Some updatedSession \<Rightarrow> w\<lparr>persisted := persisted w @ [updatedSession]\<rparr>)"

definition addNode_resolve :: "ChatStore \<Rightarrow> ChatNode \<Rightarrow> bool \<Rightarrow> nat \<Rightarrow> World \<Rightarrow> World" where
  "addNode_resolve called node ok now w =
     (case addNode_session node now called of
        None \<Rightarrow> w
      | Some updatedSession \<Rightarrow>
          if ok then w\<lparr>store := addNode_commit called updatedSession (store w)\<rparr> else w)"

definition addNode :: "ChatNode \<Rightarrow> bool \<Rightarrow> nat \<Rightarrow> World \<Rightarrow> World" where
  "addNode node ok now w = addNode_resolve (store w) node ok now (addNode_call node now w)"

text \<open>
  \<open>updateNode\<close> writes the store at once and only then, when \<open>saveToDb\<close> holds, calls the
  persistence collaborator; a failure of that call is logged and changes nothing.
\<close>

definition updateNode :: "jstring \<Rightarrow> NodeUpdates \<Rightarrow> bool \<Rightarrow> nat \<Rightarrow> World \<Rightarrow> World" where
  "updateNode nid updates saveToDb now w =
     (let st = store w in
      case currentSession st of
        None \<Rightarrow> w
      | Some cs \<Rightarrow>
          if \<not> truthy (currentSessionId st) then w
          else (case nodes cs nid of
            None \<Rightarrow> w
          | Some n \<Rightarrow>
              (let updatedNodes = (nodes cs)(nid \<mapsto> spread n updates);
                   updatedSession = cs\<lparr>nodes := updatedNodes, updatedAt := now\<rparr>;
                   newSessions = (sessions st)(the (currentSessionId st) \<mapsto> updatedSession)
               in w\<lparr>store := st\<lparr>sessions := newSessions, currentSession := Some updatedSession\<rparr>,
                     persisted := (if saveToDb then persisted w @ [updatedSession]
                                   else persisted w)\<rparr>)))"

text \<open>
  The local function \<open>deleteChildren\<close> of \<open>deleteNode\<close>.  It recurses through the child
  lists and does not return when they form a cycle, so the model carries the depth it may
  still descend and returns \<open>None\<close> when that is used up.  \<open>forEach\<close> threads the map through
  the calls for the elements of an array.
\<close>

fun forEach :: "('a \<Rightarrow> 's \<Rightarrow> 's option) \<Rightarrow> 'a list \<Rightarrow> 's \<Rightarrow> 's option" where
  "forEach f [] s = Some s"
| "forEach f (a # as) s = (case f a s of None \<Rightarrow> None | Some s' \<Rightarrow> forEach f as s')"

fun deleteChildren :: "nat \<Rightarrow> jstring \<Rightarrow> (jstring \<rightharpoonup> ChatNode) \<Rightarrow> (jstring \<rightharpoonup> ChatNode) option" where
  "deleteChildren 0 i updatedNodes = None"
| "deleteChildren (Suc depth) i updatedNodes =
     (case updatedNodes i of
        None \<Rightarrow> Some updatedNodes
      | Some node \<Rightarrow>
          forEach (\<lambda>childId ns.
              case deleteChildren depth childId ns of
                None \<Rightarrow> None
              | Some ns' \<Rightarrow> Some (ns'(childId := None)))
            (children node) updatedNodes)"

definition deleteNode_nodes :: "nat \<Rightarrow> jstring \<Rightarrow> ChatNode \<Rightarrow> (jstring \<rightharpoonup> ChatNode) \<Rightarrow> (jstring \<rightharpoonup> ChatNode) option" where
  "deleteNode_nodes depth nid nodeToDelete ns =
     (let detached =
        (case parentId nodeToDelete of
           None \<Rightarrow> ns
         | Some p \<Rightarrow>
             (if p = [] then ns
              else case ns p of
                None \<Rightarrow> ns
              | Some pn \<Rightarrow> ns(p \<mapsto> pn\<lparr>children := filter (\<lambda>i. i \<noteq> nid) (children pn)\<rparr>)));
          removed = detached(nid := None)
      in forEach (\<lambda>childId ns'. deleteChildren depth childId ns') (children nodeToDelete) removed)"

definition deleteNode :: "nat \<Rightarrow> jstring \<Rightarrow> bool \<Rightarrow> nat \<Rightarrow> World \<Rightarrow> World option" where
  "deleteNode depth nid ok now w =
     (let st = store w in
      case currentSession st of
        None \<Rightarrow> Some w
      | Some cs \<Rightarrow>
          if \<not> truthy (currentSessionId st) then Some w
          else (case nodes cs nid of
            None \<Rightarrow> Some w
          | Some nodeToDelete \<Rightarrow>
              (case deleteNode_nodes depth nid nodeToDelete (nodes cs) of
                 None \<Rightarrow> None
               | Some updatedNodes \<Rightarrow>
                   (let updatedSession = cs\<lparr>nodes := updatedNodes, updatedAt := now\<rparr>;
                        newSessions = (sessions st)(the (currentSessionId st) \<mapsto> updatedSession)
                    in
                    Some (w\<lparr>persisted := persisted w @ [updatedSession],
                            store := (if ok
                              then st\<lparr>sessions := newSessions,
                                      currentSession := Some updatedSession,
                                      selectedNodeId := Some (orElse (parentId nodeToDelete) (rootNodeId cs))\<rparr>
                              else st)\<rparr>)))))"

definition selectNode :: "jstring \<Rightarrow> World \<Rightarrow> World" where
  "selectNode nid w = w\<lparr>store := (store w)\<lparr>selectedNodeId := Some nid\<rparr>\<rparr>"

definition setQuotedContent :: "QuotedContent option \<Rightarrow> World \<Rightarrow> World" where
  "setQuotedContent q w = w\<lparr>store := (store w)\<lparr>store_quotedContent := q\<rparr>\<rparr>"

text \<open>
  \<open>getConversationPath\<close>: the loop follows parent links from the selected node and does not
  end when they form a cycle; \<open>walk\<close> takes the number of loop tests it may still make.
  \<open>unshift\<close> puts an element at the front of the array.
\<close>

definition unshift :: "'a \<Rightarrow> 'a list \<Rightarrow> 'a list" where
  "unshift a as = a # as"

definition visit :: "ChatNode \<Rightarrow> ChatNode list \<Rightarrow> ChatNode list" where
  "visit node path =
     (if type node = conversation \<and> truthy (userMessage node) \<and> truthy (assistantMessage node)
      then
        (let userNode = node\<lparr>type := user, content := the (userMessage node)\<rparr>;
             path1 = unshift userNode path;
             assistantNode = node\<lparr>type := assistant, content := the (assistantMessage node)\<rparr>
         in unshift assistantNode path1)
      else if type node \<noteq> system \<and> type node \<noteq> input then unshift node path
      else path)"

fun walk :: "nat \<Rightarrow> (jstring \<rightharpoonup> ChatNode) \<Rightarrow> jstring option \<Rightarrow> ChatNode list \<Rightarrow> ChatNode list option" where
  "walk 0 ns currentId path = None"
| "walk (Suc k) ns currentId path =
     (if \<not> truthy currentId then Some path
      else case ns (the currentId) of
        None \<Rightarrow> Some path
      | Some node \<Rightarrow> walk k ns (parentId node) (visit node path))"

definition getConversationPath :: "nat \<Rightarrow> ChatStore \<Rightarrow> ChatNode list option" where
  "getConversationPath k st =
     (case currentSession st of
        None \<Rightarrow> Some []
      | Some cs \<Rightarrow>
          if \<not> truthy (selectedNodeId st) then Some []
          else map_option (filter (\<lambda>node. type node = user \<or> type node = assistant))
                 (walk k (nodes cs) (selectedNodeId st) []))"

text \<open>A turn of the history handed to the generation request: role and content.\<close>

definition turn :: "ChatNode \<Rightarrow> NodeType \<times> jstring" where
  "turn node = (type node, content node)"

text \<open>The nodes of the current session (none when there is no current session).\<close>

definition currentNodes :: "World \<Rightarrow> (jstring \<rightharpoonup> ChatNode)" where
  "currentNodes w = (case currentSession (store w) of None \<Rightarrow> Map.empty | Some cs \<Rightarrow> nodes cs)"

subsection \<open>Well-formedness of a node map\<close>

text \<open>
  \<open>keysAgree\<close>: every node is stored under its own identifier.  \<open>parentChildSymmetry\<close>: a node
  with parent reference \<open>p\<close> is listed among the children of the node \<open>p\<close>, and every
  identifier listed among the children of a node \<open>p\<close> is that of a stored node whose parent
  reference is \<open>p\<close>.
\<close>

definition keysAgree :: "(jstring \<rightharpoonup> ChatNode) \<Rightarrow> bool" where
  "keysAgree ns = (\<forall>k n. ns k = Some n \<longrightarrow> node_id n = k)"

definition parentChildSymmetry :: "(jstring \<rightharpoonup> ChatNode) \<Rightarrow> bool" where
  "parentChildSymmetry ns =
     ((\<forall>k n p. ns k = Some n \<and> parentId n = Some p \<longrightarrow>
          (\<exists>pn. ns p = Some pn \<and> node_id n \<in> set (children pn))) \<and>
      (\<forall>k pn c. ns k = Some pn \<and> c \<in> set (children pn) \<longrightarrow>
          (\<exists>cn. ns c = Some cn \<and> parentId cn = Some (node_id pn))))"

definition storeInv :: "World \<Rightarrow> bool" where
  "storeInv w = (keysAgree (currentNodes w) \<and> parentChildSymmetry (currentNodes w))"

section \<open>The model-configuration table (server/database.ts)\<close>

text \<open>
  A row of the table \<open>model_configs\<close>.  The column \<open>id\<close> is the primary key, \<open>isDefault\<close> an
  integer column; the table is the list of its rows.
\<close>

record ModelConfigRow =
  config_id :: jstring
  config_name :: jstring
  provider :: jstring
  config_model :: jstring
  apiKey :: "jstring option"
  baseURL :: "jstring option"
  temperature :: rat
  maxTokens :: int
  isDefault :: int
  config_createdAt :: nat

text \<open>\<open>UPDATE model_configs SET isDefault = 0\<close>\<close>

definition clearDefaults :: "ModelConfigRow list \<Rightarrow> ModelConfigRow list" where
  "clearDefaults db = map (\<lambda>row. row\<lparr>isDefault := 0\<rparr>) db"

text \<open>\<open>UPDATE model_configs SET isDefault = 1 WHERE id = ?\<close>\<close>

definition markDefault :: "jstring \<Rightarrow> ModelConfigRow list \<Rightarrow> ModelConfigRow list" where
  "markDefault i db = map (\<lambda>row. if config_id row = i then row\<lparr>isDefault := 1\<rparr> else row) db"

definition setDefaultModelConfig :: "jstring \<Rightarrow> ModelConfigRow list \<Rightarrow> ModelConfigRow list" where
  "setDefaultModelConfig i db = markDefault i (clearDefaults db)"

text \<open>The rows whose default flag is set, as \<open>getAllModelConfigs\<close> reads it (\<open>isDefault === 1\<close>).\<close>

definition defaultConfigs :: "ModelConfigRow list \<Rightarrow> ModelConfigRow list" where
  "defaultConfigs db = filter (\<lambda>row. isDefault row = 1) db"

definition exampleConfig :: "jstring \<Rightarrow> int \<Rightarrow> ModelConfigRow" where
  "exampleConfig i d = \<lparr>config_id = i, config_name = i, provider = js ''openai'',
     config_model = js ''m'', apiKey = None, baseURL = None, temperature = 7 / 10,
     maxTokens = 2000, isDefault = d, config_createdAt = 0\<rparr>"

section \<open>The layout engine (src/utils/layoutUtils.ts)\<close>

subsection \<open>String operations used by the height estimate\<close>

text \<open>The code units that \<open>String.prototype.trim\<close> removes (white space and line terminators).\<close>

definition isWhiteSpace :: "nat \<Rightarrow> bool" where
  "isWhiteSpace c = (c \<in> {9, 10, 11, 12, 13, 32, 160, 5760, 8232, 8233, 8239, 8287, 12288, 65279}
                     \<or> (8192 \<le> c \<and> c \<le> 8202))"

definition trim :: "jstring \<Rightarrow> jstring" where
  "trim s = rev (dropWhile isWhiteSpace (rev (dropWhile isWhiteSpace s)))"

text \<open>\<open>s.split('\n')\<close>: code unit 10 separates the pieces; the empty string gives one empty piece.\<close>

fun splitLines :: "jstring \<Rightarrow> jstring list" where
  "splitLines [] = [[]]"
| "splitLines (c # cs) =
     (if c = 10 then [] # splitLines cs
      else case splitLines cs of [] \<Rightarrow> [[c]] | l # ls \<Rightarrow> (c # l) # ls)"

definition startsWith :: "jstring \<Rightarrow> jstring \<Rightarrow> bool" where
  "startsWith s p = (take (length p) s = p)"

text \<open>
  The matches of the regular expression \<open>/```[\s\S]*?```/g\<close>: from the first fence (three code
  units 96) to the next fence after it, then on from behind that fence; an opening fence that
  is never closed gives no match.  \<open>openBlock\<close> scans behind an opening fence, with the text of
  the block so far.
\<close>

fun codeBlocks :: "jstring \<Rightarrow> jstring list"
  and openBlock :: "jstring \<Rightarrow> jstring \<Rightarrow> jstring list" where
  "codeBlocks (a # b # c # rest) =
     (if a = 96 \<and> b = 96 \<and> c = 96 then openBlock rest [96, 96, 96]
      else codeBlocks (b # c # rest))"
| "codeBlocks s = []"
| "openBlock (a # b # c # rest) block =
     (if a = 96 \<and> b = 96 \<and> c = 96 then (block @ [96, 96, 96]) # codeBlocks rest
      else openBlock (b # c # rest) (block @ [a]))"
| "openBlock s block = []"

subsection \<open>estimateNodeHeight\<close>

definition lineHeight :: "jstring \<Rightarrow> nat" where
  "lineHeight line =
     (if trim line = [] then 24
      else if startsWith line (js ''#'') then 36
      else if startsWith line (js ''```'') then 0
      else ((length line + 59) div 60) * 24)"

definition estimateContentHeight :: "jstring \<Rightarrow> nat" where
  "estimateContentHeight txt =
     (if txt = [] then 0
      else
        (let totalHeight = foldl (\<lambda>total line. total + lineHeight line) 0 (splitLines txt)
         in foldl (\<lambda>total block. total + (length (splitLines block) * 20 + 32))
              totalHeight (codeBlocks txt)))"

definition orEmpty :: "jstring option \<Rightarrow> jstring" where
  "orEmpty v = orElse v []"

definition estimateNodeHeight :: "ChatNode \<Rightarrow> nat" where
  "estimateNodeHeight node =
     (if type node = conversation then
        (let userHeight = estimateContentHeight (orEmpty (userMessage node));
             assistantHeight = estimateContentHeight (orEmpty (assistantMessage node));
             thinkingHeight = (if truthy (thinkingContent node) then 60 else 0)
         in 120 + userHeight + assistantHeight + thinkingHeight + 100)
      else if type node = input then 300
      else 200)"

subsection \<open>The layout tree\<close>

datatype LayoutNode =
  LayoutNode (lid: jstring) (lnode: ChatNode) (lchildren: "LayoutNode list")
    (ldepth: nat) (lx: rat) (ly: rat) (lwidth: rat) (lheight: rat)

text \<open>
  \<open>buildTree\<close> raises a \<open>TypeError\<close> when no node is stored under the root identifier (it reads
  \<open>node.children\<close> of \<open>undefined\<close>), and recurses without end when the child lists form a cycle,
  which JavaScript ends with a \<open>RangeError\<close>; the model takes the depth it may still descend.
\<close>

datatype failure = TypeError | RangeError

fun mapResult :: "('a \<Rightarrow> failure + 'b) \<Rightarrow> 'a list \<Rightarrow> failure + 'b list" where
  "mapResult f [] = Inr []"
| "mapResult f (a # as) =
     (case f a of
        Inl e \<Rightarrow> Inl e
      | Inr b \<Rightarrow> (case mapResult f as of Inl e \<Rightarrow> Inl e | Inr bs \<Rightarrow> Inr (b # bs)))"

fun buildTree :: "nat \<Rightarrow> (jstring \<rightharpoonup> ChatNode) \<Rightarrow> jstring \<Rightarrow> failure + LayoutNode" where
  "buildTree 0 ns rootId = Inl RangeError"
| "buildTree (Suc depth) ns rootId =
     (case ns rootId of
        None \<Rightarrow> Inl TypeError
      | Some node \<Rightarrow>
          (case mapResult (\<lambda>childId. buildTree depth ns childId)
                  (filter (\<lambda>childId. ns childId \<noteq> None) (children node)) of
             Inl e \<Rightarrow> Inl e
           | Inr cs \<Rightarrow> Inr (LayoutNode (node_id node) node cs 0 0 0 600
                              (of_nat (estimateNodeHeight node)))))"

fun calculateSubtreeWidth :: "LayoutNode \<Rightarrow> rat \<Rightarrow> rat" where
  "calculateSubtreeWidth (LayoutNode i n cs d x y w h) horizontalSpacing =
     (if length cs = 0 then w
      else
        (let childrenWidth =
               foldl (\<lambda>sum child. sum + calculateSubtreeWidth child horizontalSpacing) 0 cs;
             spacingWidth = (of_nat (length cs) - 1) * horizontalSpacing
         in max w (childrenWidth + spacingWidth)))"

text \<open>
  \<open>layoutTree\<close> writes depth and coordinates into the tree it is given; the model returns the
  tree with them written.  \<open>layoutChildren\<close> is the \<open>forEach\<close> over the children, with the
  index and the running \<open>currentX\<close>.
\<close>

fun layoutTree :: "LayoutNode \<Rightarrow> rat \<Rightarrow> rat \<Rightarrow> nat \<Rightarrow> rat \<Rightarrow> rat \<Rightarrow> LayoutNode"
  and layoutChildren ::
    "LayoutNode list \<Rightarrow> rat list \<Rightarrow> nat \<Rightarrow> rat \<Rightarrow> rat \<Rightarrow> nat \<Rightarrow> rat \<Rightarrow> rat \<Rightarrow> LayoutNode list" where
  "layoutTree (LayoutNode i n cs d0 x0 y0 w h) x y depth horizontalSpacing verticalSpacing =
     (if length cs = 0 then LayoutNode i n cs depth x y w h
      else
        (let childWidths = map (\<lambda>child. calculateSubtreeWidth child horizontalSpacing) cs;
             totalWidth = foldl (\<lambda>sum cw. sum + cw) 0 childWidths
                            + (of_nat (length cs) - 1) * horizontalSpacing;
             currentX = x - totalWidth / 2
         in LayoutNode i n
              (layoutChildren cs childWidths 0 currentX (y + h + verticalSpacing) (depth + 1)
                 horizontalSpacing verticalSpacing)
              depth x y w h))"
| "layoutChildren [] childWidths index currentX childY depth horizontalSpacing verticalSpacing = []"
| "layoutChildren (child # rest) childWidths index currentX childY depth horizontalSpacing verticalSpacing =
     (let childWidth = childWidths ! index;
          childCenterX = currentX + childWidth / 2
      in layoutTree child childCenterX childY depth horizontalSpacing verticalSpacing
         # layoutChildren rest childWidths (index + 1) (currentX + childWidth + horizontalSpacing)
             childY depth horizontalSpacing verticalSpacing)"

fun collectPositions :: "LayoutNode \<Rightarrow> (jstring \<rightharpoonup> Position) \<Rightarrow> (jstring \<rightharpoonup> Position)" where
  "collectPositions (LayoutNode i n cs d x y w h) positions =
     foldl (\<lambda>ps child. collectPositions child ps) (positions(i \<mapsto> \<lparr>pos_x = x, pos_y = y\<rparr>)) cs"

record LayoutOptions =
  horizontalSpacing :: "rat option"
  verticalSpacing :: "rat option"

definition defaultOptions :: LayoutOptions where
  "defaultOptions = \<lparr>horizontalSpacing = None, verticalSpacing = None\<rparr>"

definition laidOut :: "LayoutNode \<Rightarrow> LayoutOptions \<Rightarrow> LayoutNode" where
  "laidOut tree options =
     layoutTree tree 300 50 0 (case horizontalSpacing options of None \<Rightarrow> 100 | Some v \<Rightarrow> v)
       (case verticalSpacing options of None \<Rightarrow> 80 | Some v \<Rightarrow> v)"

definition autoLayout ::
    "nat \<Rightarrow> (jstring \<rightharpoonup> ChatNode) \<Rightarrow> jstring \<Rightarrow> LayoutOptions \<Rightarrow> failure + (jstring \<rightharpoonup> Position)" where
  "autoLayout depth ns rootId options =
     (case buildTree depth ns rootId of
        Inl e \<Rightarrow> Inl e
      | Inr tree \<Rightarrow> Inr (collectPositions (laidOut tree options) Map.empty))"

text \<open>\<open>rearrangeNodes\<close> of the chat store: the positions of the layout are written into the nodes.\<close>

definition withPositions :: "(jstring \<rightharpoonup> Position) \<Rightarrow> (jstring \<rightharpoonup> ChatNode) \<Rightarrow> (jstring \<rightharpoonup> ChatNode)" where
  "withPositions newPositions ns =
     (\<lambda>k. case ns k of
             None \<Rightarrow> None
           | Some n \<Rightarrow> (case newPositions k of
                          None \<Rightarrow> Some n
                        | Some p \<Rightarrow> Some (n\<lparr>position := p\<rparr>)))"

definition rearrangeNodes :: "nat \<Rightarrow> bool \<Rightarrow> nat \<Rightarrow> World \<Rightarrow> failure + World" where
  "rearrangeNodes depth ok now w =
     (let st = store w in
      case currentSession st of
        None \<Rightarrow> Inr w
      | Some cs \<Rightarrow>
          if \<not> truthy (currentSessionId st) then Inr w
          else (case autoLayout depth (nodes cs) (rootNodeId cs) defaultOptions of
                  Inl e \<Rightarrow> Inl e
                | Inr newPositions \<Rightarrow>
                    (let updatedSession = cs\<lparr>nodes := withPositions newPositions (nodes cs),
                                             updatedAt := now\<rparr>;
                         newSessions = (sessions st)(the (currentSessionId st) \<mapsto> updatedSession)
                     in Inr (w\<lparr>persisted := persisted w @ [updatedSession],
                              store := (if ok
                                then st\<lparr>sessions := newSessions,
                                        currentSession := Some updatedSession\<rparr>
                                else st)\<rparr>))))"

text \<open>The nodes of a layout tree, the tree itself first, and their identifiers.\<close>

fun subtrees :: "LayoutNode \<Rightarrow> LayoutNode list" where
  "subtrees (LayoutNode i n cs d x y w h) = LayoutNode i n cs d x y w h # concat (map subtrees cs)"

definition treeIds :: "LayoutNode \<Rightarrow> jstring list" where
  "treeIds t = map lid (subtrees t)"

subsection \<open>Notions used to state and prove the layout properties\<close>

text \<open>
  \<open>totalWidth\<close> is the width that \<open>layoutTree\<close> computes for the children of a node, and
  \<open>offset hs cs k\<close> the distance from the left end of that span to the left end of the extent
  of the \<open>k\<close>-th child.
\<close>

definition offset :: "rat \<Rightarrow> LayoutNode list \<Rightarrow> nat \<Rightarrow> rat" where
  "offset hs cs k = sum_list (map (\<lambda>c. calculateSubtreeWidth c hs + hs) (take k cs))"

definition totalWidth :: "rat \<Rightarrow> LayoutNode list \<Rightarrow> rat" where
  "totalWidth hs cs = sum_list (map (\<lambda>c. calculateSubtreeWidth c hs) cs) + (of_nat (length cs) - 1) * hs"

text \<open>
  The horizontal extent of a laid-out subtree: the interval of width \<open>calculateSubtreeWidth\<close>
  around the x coordinate of its root.
\<close>

definition extentLeft :: "rat \<Rightarrow> LayoutNode \<Rightarrow> rat" where
  "extentLeft hs t = lx t - calculateSubtreeWidth t hs / 2"

definition extentRight :: "rat \<Rightarrow> LayoutNode \<Rightarrow> rat" where
  "extentRight hs t = lx t + calculateSubtreeWidth t hs / 2"

text \<open>\<open>place\<close> is the assignment that \<open>collectPositions\<close> makes for one node of the tree.\<close>

definition place :: "(jstring \<rightharpoonup> Position) \<Rightarrow> LayoutNode \<Rightarrow> (jstring \<rightharpoonup> Position)" where
  "place ps m = ps(lid m \<mapsto> \<lparr>pos_x = lx m, pos_y = ly m\<rparr>)"

text \<open>
  \<open>forgetNode\<close> replaces the chat node carried by every node of a layout tree by a fixed one;
  \<open>sameContent\<close> relates two node maps that store, under the same keys, nodes with the same
  identifier, child list, type, messages and thinking text, which is all the layout reads.
\<close>

definition blankNode :: ChatNode where
  "blankNode = rootNode 0"

fun forgetNode :: "LayoutNode \<Rightarrow> LayoutNode" where
  "forgetNode (LayoutNode i n cs d x y w h) = LayoutNode i blankNode (map forgetNode cs) d x y w h"

definition sameContent :: "(jstring \<rightharpoonup> ChatNode) \<Rightarrow> (jstring \<rightharpoonup> ChatNode) \<Rightarrow> bool" where
  "sameContent ns ns' =
     (\<forall>k. rel_option (\<lambda>n n'. node_id n = node_id n' \<and> children n = children n' \<and> type n = type n'
                \<and> userMessage n = userMessage n' \<and> assistantMessage n = assistantMessage n'
                \<and> thinkingContent n = thinkingContent n') (ns k) (ns' k))"

section \<open>Sending a message and merging the streamed reply (components/ChatNode, handleSend)\<close>

subsection \<open>The generation transport, as the component sees it\<close>

text \<open>
  \<open>sendAIMessage\<close> calls the chunk callback any number of times and then either resolves with
  a response or rejects with a thrown value.  A run of the transport is given by the chunks
  it delivers, each with the time at which it arrives, and by how it ends.
\<close>

datatype ChunkType = thinking | contentChunk

record AIResponse =
  response_content :: jstring
  response_thinkingContent :: "jstring option"

datatype Thrown = ErrorObject (error_name: jstring) (error_message: jstring) | NotAnError

datatype Outcome = Resolved AIResponse | Rejected Thrown

text \<open>
  What a streaming provider resolves with (services/ai.ts): the concatenation of the content
  chunks it has delivered, and that of the thinking chunks, or \<open>undefined\<close> when that is empty.
\<close>

definition contentOf :: "(ChunkType \<times> jstring \<times> nat) list \<Rightarrow> jstring" where
  "contentOf cs = concat (map (\<lambda>(ty, chunk, t). if ty = thinking then [] else chunk) cs)"

definition thinkingOf :: "(ChunkType \<times> jstring \<times> nat) list \<Rightarrow> jstring" where
  "thinkingOf cs = concat (map (\<lambda>(ty, chunk, t). if ty = thinking then chunk else []) cs)"

definition streamedResponse :: "(ChunkType \<times> jstring \<times> nat) list \<Rightarrow> AIResponse" where
  "streamedResponse cs = \<lparr>response_content = contentOf cs,
     response_thinkingContent = (if thinkingOf cs = [] then None else Some (thinkingOf cs))\<rparr>"

subsection \<open>What the component holds when \<open>handleSend\<close> is called, and its environment\<close>

text \<open>
  \<open>arg_node\<close> is the node the component renders, \<open>arg_input\<close> the text of the input box,
  \<open>arg_session\<close> and \<open>arg_quoted\<close> the session and the quoted content the component has read from
  the store, \<open>arg_model\<close> the model configuration to use (the selected one or the default).

  The environment gives the run of the transport, the readings of the clock (one for the
  stretch before the request, one for the stretch after the transport has ended, one for the
  \<open>finally\<close> block) and, for each persistence call whose result the store waits for, whether
  it succeeds.  The writes of \<open>updateSessionTitle\<close> and of the \<open>addNode\<close> for a new conversation
  node are taken to land before the first chunk arrives; the two \<open>addNode\<close> calls made after a
  completed stream are made from the same store, and their writes land in call order.
\<close>

record SendArgs =
  arg_node :: ChatNode
  arg_input :: jstring
  arg_session :: "ChatSession option"
  arg_model :: "ModelConfigRow option"
  arg_quoted :: "QuotedContent option"

record Environment =
  env_chunks :: "(ChunkType \<times> jstring \<times> nat) list"
  env_outcome :: Outcome
  t_send :: nat
  t_end :: nat
  t_finally :: nat
  ok_title :: bool
  ok_conversation :: bool
  ok_try :: bool
  ok_finally :: bool

subsection \<open>String constants of the component\<close>

definition stopMark :: jstring where
  \<comment> \<open>two line feeds, a rule, a line feed and the starred, bracketed note that generation was stopped\<close>
  "stopMark = [10, 10, 45, 45, 45, 10, 42, 91, 29983, 25104, 24050, 20572, 27490, 93, 42]"

definition sendFailed :: jstring where
  \<comment> \<open>the prefix of the alert shown when sending fails, ending in a colon and a blank\<close>
  "sendFailed = [21457, 36865, 22833, 36133, 58, 32]"

definition unknownError :: jstring where
  "unknownError = [26410, 30693, 38169, 35823]"

definition noModelConfigured :: jstring where
  "noModelConfigured = [35831, 20808, 22312, 35774, 32622, 20013, 37197, 32622, 24182, 35774,
     32622, 40664, 35748, 32, 65, 73, 32, 27169, 22411]"

definition sourceLabel :: "SourceType \<Rightarrow> jstring" where
  "sourceLabel s = (if s = fromUser then [29992, 25143] else [65, 73, 21161, 25163])"

text \<open>The two templates that put a quotation in front of the user's message.\<close>

definition quoteWithContext :: "jstring \<Rightarrow> jstring \<Rightarrow> jstring \<Rightarrow> jstring \<Rightarrow> jstring" where
  "quoteWithContext label full selected userMsg =
     [91, 24341, 29992, 19978, 19979, 25991, 93, 10, 26469, 28304, 65306] @ label
     @ [30340, 22238, 22797, 10, 23436, 25972, 20869, 23481, 65306, 10, 34, 34, 34, 10] @ full
     @ [10, 34, 34, 34, 10, 10, 36873, 20013, 37096, 20998, 65306, 10, 34, 34, 34, 10] @ selected
     @ [10, 34, 34, 34, 10, 10, 91, 25105, 30340, 38382, 39064, 93, 10] @ userMsg"

definition quoteOnly :: "jstring \<Rightarrow> jstring \<Rightarrow> jstring \<Rightarrow> jstring" where
  "quoteOnly label selected userMsg =
     [91, 24341, 29992, 20869, 23481, 93, 10, 26469, 28304, 65306] @ label
     @ [30340, 22238, 22797, 10, 34, 34, 34, 10] @ selected
     @ [10, 34, 34, 34, 10, 10, 91, 25105, 30340, 38382, 39064, 93, 10] @ userMsg"

definition finalUserMessage :: "QuotedContent option \<Rightarrow> jstring \<Rightarrow> jstring" where
  "finalUserMessage quoted userMsg =
     (case quoted of
        None \<Rightarrow> userMsg
      | Some q \<Rightarrow>
          if truthy (fullContext q) \<and> fullContext q \<noteq> Some (qtext q)
          then quoteWithContext (sourceLabel (sourceType q)) (the (fullContext q)) (qtext q) userMsg
          else quoteOnly (sourceLabel (sourceType q)) (qtext q) userMsg)"

definition modelLabel :: "ModelConfigRow \<Rightarrow> jstring" where
  "modelLabel m = provider m @ js '':'' @ config_model m"

subsection \<open>The steps of \<open>handleSend\<close>\<close>

text \<open>
  Before the request: an input node is turned into a conversation node in place (and the
  first message of a session becomes its title); for any other node a new conversation node
  is added below it.  The result is the identifier of the conversation node, \<open>baseY\<close> and the
  new world.
\<close>

definition sessionTitle :: "jstring \<Rightarrow> jstring" where
  "sessionTitle userMsg =
     (if length userMsg > 30 then take 30 userMsg @ js ''...'' else userMsg)"

definition beginSend ::
    "SendArgs \<Rightarrow> jstring \<Rightarrow> ModelConfigRow \<Rightarrow> ChatSession \<Rightarrow> Environment \<Rightarrow> World
       \<Rightarrow> jstring \<times> rat \<times> World" where
  "beginSend args userMsg modelToUse session env w =
     (let node = arg_node args in
      if type node = input then
        (let w1 = updateNode (node_id node)
                    (noUpdates\<lparr>u_type := Some conversation, u_content := Some userMsg,
                       u_userMessage := Some (Some userMsg), u_assistantMessage := Some None,
                       u_timestamp := Some (t_send env), u_quotedContent := Some (arg_quoted args),
                       u_model := Some (modelLabel modelToUse)\<rparr>)
                    True (t_send env) w;
             w2 = (if title session = newSessionTitle \<and> node_id node = js ''root''
                   then updateSessionTitle (session_id session) (sessionTitle userMsg)
                          (ok_title env) (t_send env) w1
                   else w1)
         in (node_id node, pos_y (position node), w2))
      else
        (let conversationNodeId = js ''conversation-'' @ decimal (t_send env);
             baseY = pos_y (position node) + 200;
             conversationNode = \<lparr>node_id = conversationNodeId, type = conversation,
               content = userMsg, parentId = Some (node_id node), children = [],
               model = modelLabel modelToUse, timestamp = t_send env,
               position = \<lparr>pos_x = pos_x (position node), pos_y = baseY\<rparr>,
               userMessage = Some userMsg, assistantMessage = None, thinkingContent = None,
               quotedContent = arg_quoted args\<rparr>
         in (conversationNodeId, baseY, addNode conversationNode (ok_conversation env) (t_send env) w)))"

text \<open>
  The chunk callback: the chunk is appended to the text streamed so far and the node is
  updated in the store, with \<open>saveToDb = false\<close>.
\<close>

record Streamed =
  streamedContent :: jstring
  streamedThinking :: jstring
  world :: World

definition onChunk :: "jstring \<Rightarrow> Streamed \<Rightarrow> ChunkType \<times> jstring \<times> nat \<Rightarrow> Streamed" where
  "onChunk conversationNodeId s c =
     (case c of (ty, chunk, now) \<Rightarrow>
        if ty = thinking then
          (let streamedThinking' = streamedThinking s @ chunk in
           s\<lparr>streamedThinking := streamedThinking',
             world := updateNode conversationNodeId
                        (noUpdates\<lparr>u_thinkingContent := Some (Some streamedThinking')\<rparr>)
                        False now (world s)\<rparr>)
        else
          (let streamedContent' = streamedContent s @ chunk in
           s\<lparr>streamedContent := streamedContent',
             world := updateNode conversationNodeId
                        (noUpdates\<lparr>u_assistantMessage := Some (Some streamedContent')\<rparr>)
                        False now (world s)\<rparr>))"

definition stream :: "jstring \<Rightarrow> (ChunkType \<times> jstring \<times> nat) list \<Rightarrow> World \<Rightarrow> Streamed" where
  "stream conversationNodeId cs w =
     foldl (onChunk conversationNodeId) \<lparr>streamedContent = [], streamedThinking = [], world = w\<rparr> cs"

text \<open>The input node created below the conversation node once generation has ended.\<close>

definition newInputNode :: "jstring \<Rightarrow> ChatNode \<Rightarrow> rat \<Rightarrow> jstring \<Rightarrow> jstring \<Rightarrow> nat \<Rightarrow> ChatNode" where
  "newInputNode conversationNodeId node baseY userMsg streamed now =
     (let userHeight = estimateContentHeight userMsg;
          assistantHeight = estimateContentHeight streamed;
          estimatedHeight = 120 + userHeight + assistantHeight + 100
      in \<lparr>node_id = js ''input-'' @ decimal now, type = input, content = [],
           parentId = Some conversationNodeId, children = [], model = [], timestamp = now,
           position = \<lparr>pos_x = pos_x (position node), pos_y = baseY + of_nat estimatedHeight\<rparr>,
           userMessage = None, assistantMessage = None, thinkingContent = None,
           quotedContent = None\<rparr>)"

text \<open>
  The end of the \<open>try\<close> block, reached when the transport has resolved: the final update of
  the node is saved, and \<open>addNode\<close> is called for a new input node; its write to the store is
  still to come.  The result says that \<open>shouldCreateInputNode\<close> is set.
\<close>

definition completed :: "jstring \<Rightarrow> AIResponse \<Rightarrow> Environment \<Rightarrow> World \<Rightarrow> World" where
  "completed conversationNodeId response env w =
     updateNode conversationNodeId
       (noUpdates\<lparr>u_assistantMessage := Some (Some (response_content response)),
          u_thinkingContent := Some (response_thinkingContent response),
          u_timestamp := Some (t_end env)\<rparr>)
       True (t_end env) w"

text \<open>
  The \<open>catch\<close> block.  For an abort, what has been streamed is kept and saved with the stop
  mark, provided some content has been streamed; the boolean is \<open>shouldCreateInputNode\<close>.
  Any other thrown value is reported with an alert.
\<close>

definition isAbort :: "Thrown \<Rightarrow> bool" where
  "isAbort e = (case e of ErrorObject name msg \<Rightarrow> name = js ''AbortError'' | NotAnError \<Rightarrow> False)"

definition caught :: "jstring \<Rightarrow> Thrown \<Rightarrow> Streamed \<Rightarrow> Environment \<Rightarrow> bool \<times> World" where
  "caught conversationNodeId e s env =
     (if isAbort e then
        (if conversationNodeId \<noteq> [] \<and> streamedContent s \<noteq> [] then
           (let contentWithStopMark = streamedContent s @ stopMark in
            (True,
             updateNode conversationNodeId
               (noUpdates\<lparr>u_assistantMessage := Some (Some contentWithStopMark),
                  u_thinkingContent := Some (if streamedThinking s = [] then None
                                             else Some (streamedThinking s)),
                  u_timestamp := Some (t_end env)\<rparr>)
               True (t_end env) (world s)))
         else (False, world s))
      else
        (False,
         (world s)\<lparr>alerts := alerts (world s)
            @ [sendFailed @ (case e of ErrorObject name msg \<Rightarrow> msg | NotAnError \<Rightarrow> unknownError)]\<rparr>))"

text \<open>
  What \<open>handleSend\<close> does once the transport has ended, from the state the stream has left:
  the rest of the \<open>try\<close> block when the transport has resolved, the \<open>catch\<close> block when it has
  rejected, and then the \<open>finally\<close> block, which adds the new input node when
  \<open>shouldCreateInputNode\<close> is set and the conversation node has a non-empty identifier.
\<close>

definition finishSend :: "jstring \<Rightarrow> ChatNode \<Rightarrow> rat \<Rightarrow> jstring \<Rightarrow> Environment \<Rightarrow> Streamed \<Rightarrow> World" where
  "finishSend conversationNodeId node baseY userMsg env s =
     (case env_outcome env of
        Resolved response \<Rightarrow>
          (let w4 = completed conversationNodeId response env (world s);
               called = store w4;
               n1 = newInputNode conversationNodeId node baseY userMsg (streamedContent s) (t_end env);
               w5 = selectNode (node_id n1) (addNode_call n1 (t_end env) w4)
           in if conversationNodeId \<noteq> [] then
                (let n2 = newInputNode conversationNodeId node baseY userMsg (streamedContent s)
                            (t_finally env);
                     w6 = selectNode (node_id n2) (addNode_call n2 (t_finally env) w5)
                 in addNode_resolve called n2 (ok_finally env) (t_finally env)
                      (addNode_resolve called n1 (ok_try env) (t_end env) w6))
              else addNode_resolve called n1 (ok_try env) (t_end env) w5)
      | Rejected e \<Rightarrow>
          (case caught conversationNodeId e s env of
             (shouldCreateInputNode, w4) \<Rightarrow>
               if shouldCreateInputNode \<and> conversationNodeId \<noteq> [] then
                 (let n2 = newInputNode conversationNodeId node baseY userMsg (streamedContent s)
                             (t_finally env)
                  in selectNode (node_id n2) (addNode n2 (ok_finally env) (t_finally env) w4))
               else w4))"

text \<open>
  \<open>handleSend\<close>.  The depth bound is that of the walk of \<open>getConversationPath\<close>; when it is used
  up (the walk does not end) the result is \<open>None\<close>.
\<close>

definition handleSend :: "nat \<Rightarrow> SendArgs \<Rightarrow> Environment \<Rightarrow> World \<Rightarrow> World option" where
  "handleSend k args env w =
     (let userMsg = trim (arg_input args) in
      if userMsg = [] then Some w
      else case arg_session args of
        None \<Rightarrow> Some w
      | Some session \<Rightarrow>
          (case arg_model args of
             None \<Rightarrow> Some (w\<lparr>alerts := alerts w @ [noModelConfigured]\<rparr>)
           | Some modelToUse \<Rightarrow>
               (case beginSend args userMsg modelToUse session env w of
                  (conversationNodeId, baseY, w1) \<Rightarrow>
                    (let w2 = setQuotedContent None w1 in
                     case getConversationPath k (store w2) of
                       None \<Rightarrow> None
                     | Some conversationPath \<Rightarrow>
                         (let messages = map turn conversationPath
                                @ [(user, finalUserMessage (arg_quoted args) userMsg)];
                              w3 = w2\<lparr>sent := sent w2 @ [messages]\<rparr>;
                              s = stream conversationNodeId (env_chunks env) w3
                          in Some (finishSend conversationNodeId (arg_node args) baseY userMsg
                                     env s))))))"

subsection \<open>Notions used to state the properties of \<open>handleSend\<close>\<close>

text \<open>
  \<open>hasNode w i\<close>: the store has a current session with a non-empty identifier, and a node is
  stored under \<open>i\<close> in it.  \<open>nodeField f w i\<close> is the field \<open>f\<close> of that node.
\<close>

definition hasNode :: "World \<Rightarrow> jstring \<Rightarrow> bool" where
  "hasNode w i = (truthy (currentSessionId (store w)) \<and> currentNodes w i \<noteq> None)"

definition nodeField :: "(ChatNode \<Rightarrow> 'a) \<Rightarrow> World \<Rightarrow> jstring \<Rightarrow> 'a option" where
  "nodeField f w i = map_option f (currentNodes w i)"

section \<open>Example sessions\<close>

definition exampleNode :: "jstring \<Rightarrow> NodeType \<Rightarrow> jstring \<Rightarrow> jstring option \<Rightarrow> jstring list \<Rightarrow> ChatNode" where
  "exampleNode i t c p cs = \<lparr>node_id = i, type = t, content = c, parentId = p, children = cs,
     model = [], timestamp = 0, position = \<lparr>pos_x = 0, pos_y = 0\<rparr>, userMessage = None,
     assistantMessage = None, thinkingContent = None, quotedContent = None\<rparr>"

definition exampleSession :: "(jstring \<rightharpoonup> ChatNode) \<Rightarrow> ChatSession" where
  "exampleSession ns = \<lparr>session_id = js ''s1'', title = js ''t'', nodes = ns,
     rootNodeId = js ''root'', createdAt = 0, updatedAt = 0, defaultModelId = None\<rparr>"

definition exampleWorld :: "(jstring \<rightharpoonup> ChatNode) \<Rightarrow> jstring \<Rightarrow> World" where
  "exampleWorld ns sel =
     \<lparr>store = \<lparr>sessions = [js ''s1'' \<mapsto> exampleSession ns], currentSessionId = Some (js ''s1''),
                currentSession = Some (exampleSession ns), selectedNodeId = Some sel,
                store_quotedContent = None, isLoading = False\<rparr>,
      persisted = [], created = [], alerts = [], sent = []\<rparr>"

text \<open>The chain root, A (user), B (conversation with user message Q and assistant message R), C (input).\<close>

definition chainNodes :: "jstring \<rightharpoonup> ChatNode" where
  "chainNodes =
     [js ''root'' \<mapsto> exampleNode (js ''root'') system [] None [js ''A''],
      js ''A'' \<mapsto> exampleNode (js ''A'') user (js ''A.content'') (Some (js ''root'')) [js ''B''],
      js ''B'' \<mapsto> (exampleNode (js ''B'') conversation (js ''Q'') (Some (js ''A'')) [js ''C''])
                    \<lparr>userMessage := Some (js ''Q''), assistantMessage := Some (js ''R'')\<rparr>,
      js ''C'' \<mapsto> exampleNode (js ''C'') input [] (Some (js ''B'')) []]"

text \<open>The chain root, X, Y, Z, each the only child of the one before.\<close>

definition treeNodes :: "jstring \<rightharpoonup> ChatNode" where
  "treeNodes =
     [js ''root'' \<mapsto> exampleNode (js ''root'') system [] None [js ''X''],
      js ''X'' \<mapsto> exampleNode (js ''X'') user (js ''x'') (Some (js ''root'')) [js ''Y''],
      js ''Y'' \<mapsto> exampleNode (js ''Y'') user (js ''y'') (Some (js ''X'')) [js ''Z''],
      js ''Z'' \<mapsto> exampleNode (js ''Z'') input [] (Some (js ''Y'')) []]"

text \<open>A session that holds only its root, and a node that arrives with a child list of its own.\<close>

definition rootOnly :: "jstring \<rightharpoonup> ChatNode" where
  "rootOnly = [js ''root'' \<mapsto> rootNode 1]"

definition ghostParent :: ChatNode where
  "ghostParent = exampleNode (js ''n1'') input [] (Some (js ''root'')) [js ''ghost'']"

text \<open>A tree for the layout: root with the children a and b, a with the children a1 and a2.\<close>

definition layoutExample :: "jstring \<rightharpoonup> ChatNode" where
  "layoutExample =
     [js ''root'' \<mapsto> exampleNode (js ''root'') input [] None [js ''a'', js ''b''],
      js ''a'' \<mapsto> exampleNode (js ''a'') input [] (Some (js ''root'')) [js ''a1'', js ''a2''],
      js ''b'' \<mapsto> exampleNode (js ''b'') input [] (Some (js ''root'')) [],
      js ''a1'' \<mapsto> exampleNode (js ''a1'') input [] (Some (js ''a'')) [],
      js ''a2'' \<mapsto> exampleNode (js ''a2'') input [] (Some (js ''a'')) []]"

definition layoutExampleTree :: LayoutNode where
  "layoutExampleTree =
     LayoutNode (js ''root'') (exampleNode (js ''root'') input [] None [js ''a'', js ''b''])
       [LayoutNode (js ''a'') (exampleNode (js ''a'') input [] (Some (js ''root'')) [js ''a1'', js ''a2''])
          [LayoutNode (js ''a1'') (exampleNode (js ''a1'') input [] (Some (js ''a'')) []) [] 0 0 0 600 300,
           LayoutNode (js ''a2'') (exampleNode (js ''a2'') input [] (Some (js ''a'')) []) [] 0 0 0 600 300]
          0 0 0 600 300,
        LayoutNode (js ''b'') (exampleNode (js ''b'') input [] (Some (js ''root'')) []) [] 0 0 0 600 300]
       0 0 0 600 300"

text \<open>A call of \<open>handleSend\<close> on the input node C of the chain, and runs of the transport.\<close>

definition exampleArgs :: SendArgs where
  "exampleArgs = \<lparr>arg_node = exampleNode (js ''C'') input [] (Some (js ''B'')) [],
     arg_input = js ''Hi'', arg_session = Some (exampleSession chainNodes),
     arg_model = Some (exampleConfig (js ''A'') 1), arg_quoted = None\<rparr>"

definition exampleEnv :: "(ChunkType \<times> jstring \<times> nat) list \<Rightarrow> Outcome \<Rightarrow> Environment" where
  "exampleEnv cs out = \<lparr>env_chunks = cs, env_outcome = out, t_send = 10, t_end = 20,
     t_finally = 21, ok_title = True, ok_conversation = True, ok_try = True, ok_finally = True\<rparr>"

definition helloChunks :: "(ChunkType \<times> jstring \<times> nat) list" where
  "helloChunks = [(contentChunk, js ''Hel'', 11), (contentChunk, js ''lo'', 12)]"

definition abortError :: Thrown where
  "abortError = ErrorObject (js ''AbortError'') (js ''The user aborted a request.'')"

definition networkError :: Thrown where
  "networkError = ErrorObject (js ''TypeError'') (js ''Failed to fetch'')"


definition thinkingChunks :: "(ChunkType \<times> jstring \<times> nat) list" where
  "thinkingChunks = [(thinking, js ''Hmm'', 11)]"

text \<open>The same environment when the persistence call made in the \<open>finally\<close> block fails.\<close>

definition offlineEnv :: "(ChunkType \<times> jstring \<times> nat) list \<Rightarrow> Outcome \<Rightarrow> Environment" where
  "offlineEnv cs out = (exampleEnv cs out)\<lparr>ok_finally := False\<rparr>"
section \<open>Evaluation of the recursive functions at numerals\<close>

lemma walk_numeral [simp]:
  "walk (numeral k) ns c path = walk (Suc (pred_numeral k)) ns c path"
  by (simp add: numeral_eq_Suc)

lemma deleteChildren_numeral [simp]:
  "deleteChildren (numeral k) i ns = deleteChildren (Suc (pred_numeral k)) i ns"
  by (simp add: numeral_eq_Suc)

section \<open>Path resolution\<close>

text \<open>
  What one step of the walk does with a conversation node that carries both messages: two
  \<open>unshift\<close>s in a row leave the entry pushed second, the assistant message, in front of the
  entry pushed first, the user message.
\<close>

lemma visit_conversation:
  assumes "type node = conversation" "truthy (userMessage node)" "truthy (assistantMessage node)"
  shows "map turn (visit node path) =
           (assistant, the (assistantMessage node)) # (user, the (userMessage node)) # map turn path"
  using assms by (simp add: visit_def unshift_def turn_def Let_def)

text \<open>
  C1.  For the chain root, A (user), B (conversation with user message Q and assistant message
  R), C (input), the path resolved at C is expected to be
  \<open>[(user, A.content), (user, Q), (assistant, R)]\<close>.  The code returns the assistant entry of B
  before its user entry: \<open>[(user, A.content), (assistant, R), (user, Q)]\<close>.
\<close>

theorem getConversationPath_chain:
  "map_option (map turn) (getConversationPath 5 (store (exampleWorld chainNodes (js ''C''))))
     = Some [(user, js ''A.content''), (assistant, js ''R''), (user, js ''Q'')]"
  by code_simp

section \<open>Deletion\<close>

text \<open>
  C2.  In the chain root, X, Y, Z, deleting X is expected to remove X, Y and Z.  The code calls
  \<open>deleteChildren\<close> for each child of X, which removes the descendants of that child and not
  the child: afterwards root has no children, X and Z are gone, and Y is still stored, with
  the parent reference X and the child list \<open>[Z]\<close>.  The list gives, for root, X, Y and Z, the
  parent reference and the child list of the node stored after the deletion.
\<close>

theorem deleteNode_keeps_children_of_deleted:
  "map_option
     (\<lambda>w. map (\<lambda>k. map_option (\<lambda>n. (parentId n, children n)) (currentNodes w k))
              [js ''root'', js ''X'', js ''Y'', js ''Z''])
     (deleteNode 5 (js ''X'') True 1 (exampleWorld treeNodes (js ''X'')))
   = Some [Some (None, []), None, Some (Some (js ''X''), [js ''Z'']), None]"
  by code_simp

subsection \<open>The selection after a deletion\<close>

lemma deleteNode_Some:
  assumes "currentSession (store w) = Some cs" "truthy (currentSessionId (store w))"
    and "nodes cs X = Some n" "deleteNode depth X ok now w = Some w'"
  obtains updatedNodes where
    "deleteNode_nodes depth X n (nodes cs) = Some updatedNodes"
    "persisted w' = persisted w @ [cs\<lparr>nodes := updatedNodes, updatedAt := now\<rparr>]"
    "ok \<Longrightarrow> store w' = (store w)\<lparr>
        sessions := (sessions (store w))(the (currentSessionId (store w)) \<mapsto> cs\<lparr>nodes := updatedNodes, updatedAt := now\<rparr>),
        currentSession := Some (cs\<lparr>nodes := updatedNodes, updatedAt := now\<rparr>),
        selectedNodeId := Some (orElse (parentId n) (rootNodeId cs))\<rparr>"
    "\<not> ok \<Longrightarrow> store w' = store w"
  using assms by (auto simp: deleteNode_def Let_def split: option.splits if_splits)

text \<open>
  C10, as the code has it.  After \<open>deleteNode\<close> has removed an existing node X and the
  persistence call has succeeded, the selected node is X's former parent reference when that is
  a non-empty string, and the session's root identifier when it is null or empty.  The selected
  node differs from X whenever X is not its own parent and is not the root of the session.
\<close>

theorem deleteNode_selection:
  assumes "currentSession (store w) = Some cs" "truthy (currentSessionId (store w))"
    and "nodes cs X = Some n" "deleteNode depth X True now w = Some w'"
  shows "selectedNodeId (store w') =
           Some (case parentId n of None \<Rightarrow> rootNodeId cs
                 | Some p \<Rightarrow> if p = [] then rootNodeId cs else p)
         \<and> (parentId n \<noteq> Some X \<and> rootNodeId cs \<noteq> X \<longrightarrow> selectedNodeId (store w') \<noteq> Some X)"
proof -
  from assms obtain updatedNodes where
    "store w' = (store w)\<lparr>
        sessions := (sessions (store w))(the (currentSessionId (store w)) \<mapsto> cs\<lparr>nodes := updatedNodes, updatedAt := now\<rparr>),
        currentSession := Some (cs\<lparr>nodes := updatedNodes, updatedAt := now\<rparr>),
        selectedNodeId := Some (orElse (parentId n) (rootNodeId cs))\<rparr>"
    by (rule deleteNode_Some) simp
  then show ?thesis by (auto simp: orElse_def split: option.splits)
qed

theorem deleteNode_selection_witness:
  "selectedNodeId (store (the (deleteNode 5 (js ''C'') True 1 (exampleWorld chainNodes (js ''C'')))))
     = Some (js ''B'')"
proof -
  let ?w = "exampleWorld chainNodes (js ''C'')"
  have run: "map_option (\<lambda>w. ()) (deleteNode 5 (js ''C'') True 1 ?w) = Some ()"
    by code_simp
  then obtain w' where w': "deleteNode 5 (js ''C'') True 1 ?w = Some w'"
    by auto
  have cs: "currentSession (store ?w) = Some (exampleSession chainNodes)"
    by (simp add: exampleWorld_def)
  have tr: "truthy (currentSessionId (store ?w))"
    by (simp add: exampleWorld_def truthy_def js_def)
  have n: "nodes (exampleSession chainNodes) (js ''C'')
             = Some (exampleNode (js ''C'') input [] (Some (js ''B'')) [])"
    by (simp add: exampleSession_def chainNodes_def js_def)
  from deleteNode_selection [OF cs tr n w'] w' show ?thesis
    by (simp add: exampleNode_def js_def)
qed

text \<open>
  The claim says that the deleted node is never left selected.  Deleting the root of a session
  that holds only its root selects the root identifier again, although no node is stored under it any
  more.  (The only caller, the close button of an input node, does not delete the node whose
  identifier is \<open>root\<close>.)
\<close>

theorem deleteNode_root_stays_selected:
  "map_option (\<lambda>w. (selectedNodeId (store w), map_option node_id (currentNodes w (js ''root''))))
     (deleteNode 5 (js ''root'') True 2 (exampleWorld rootOnly (js ''root'')))
   = Some (Some (js ''root''), None)"
  by code_simp


section \<open>Parent/child symmetry\<close>

lemma addNode_nodes_inv:
  assumes K: "keysAgree ns" and S: "parentChildSymmetry ns" and fresh: "ns (node_id n) = None"
    and leaf: "children n = []" and par: "parentId n = Some p" and pne: "p \<noteq> []"
    and pex: "ns p = Some pn"
  shows "keysAgree (addNode_nodes n ns) \<and> parentChildSymmetry (addNode_nodes n ns)"
proof -
  define a where "a = node_id n"
  define ns' where "ns' = addNode_nodes n ns"
  have neq: "p \<noteq> a" using fresh pex a_def by auto
  have idp: "node_id pn = p" using K pex by (simp add: keysAgree_def)
  have eq: "ns' k = (if k = p then Some (pn\<lparr>children := children pn @ [a]\<rparr>)
                     else if k = a then Some n else ns k)" for k
    using par pne pex neq by (simp add: ns'_def a_def addNode_nodes_def Let_def)
  have keep: "\<exists>qn'. ns' q = Some qn' \<and> set (children qn) \<subseteq> set (children qn') \<and>
                node_id qn' = node_id qn \<and> parentId qn' = parentId qn"
    if "ns q = Some qn" for q qn
    using that fresh pex by (auto simp: eq a_def)
  have old: "k = a \<and> m = n \<or>
       (\<exists>m0. ns k = Some m0 \<and> node_id m = node_id m0 \<and> parentId m = parentId m0 \<and>
              set (children m) \<subseteq> set (children m0) \<union> (if k = p then {a} else {}))"
    if "ns' k = Some m" for k m
    using that pex by (auto simp: eq split: if_splits)
  have k': "keysAgree ns'"
    using K idp by (auto simp: keysAgree_def eq a_def split: if_splits)
  have s1: "\<exists>qn. ns' q = Some qn \<and> node_id m \<in> set (children qn)"
    if km: "ns' k = Some m" and pm: "parentId m = Some q" for k m q
  proof -
    from old[OF km] show ?thesis
    proof
      assume "k = a \<and> m = n"
      then show ?thesis using pm par by (auto simp: eq a_def)
    next
      assume "\<exists>m0. ns k = Some m0 \<and> node_id m = node_id m0 \<and> parentId m = parentId m0 \<and>
              set (children m) \<subseteq> set (children m0) \<union> (if k = p then {a} else {})"
      then obtain m0 where m0: "ns k = Some m0" "node_id m = node_id m0" "parentId m0 = Some q"
        using pm by auto
      then obtain qn where q: "ns q = Some qn" "node_id m0 \<in> set (children qn)"
        using S unfolding parentChildSymmetry_def by blast
      from keep[OF q(1)] q(2) m0(2) show ?thesis by auto
    qed
  qed
  have s2: "\<exists>cn. ns' c = Some cn \<and> parentId cn = Some (node_id qn)"
    if kq: "ns' k = Some qn" and cq: "c \<in> set (children qn)" for k qn c
  proof -
    from old[OF kq] show ?thesis
    proof
      assume "k = a \<and> qn = n"
      then show ?thesis using cq leaf by simp
    next
      assume "\<exists>m0. ns k = Some m0 \<and> node_id qn = node_id m0 \<and> parentId qn = parentId m0 \<and>
              set (children qn) \<subseteq> set (children m0) \<union> (if k = p then {a} else {})"
      then obtain m0 where m0: "ns k = Some m0" "node_id qn = node_id m0"
        "set (children qn) \<subseteq> set (children m0) \<union> (if k = p then {a} else {})"
        by auto
      show ?thesis
      proof (cases "c \<in> set (children m0)")
        case True
        then obtain cn where c: "ns c = Some cn" "parentId cn = Some (node_id m0)"
          using S m0(1) unfolding parentChildSymmetry_def by blast
        from keep[OF c(1)] c(2) m0(2) show ?thesis by auto
      next
        case False
        then have "c = a" "k = p" using cq m0(3) by (auto split: if_splits)
        then have "m0 = pn" using m0(1) pex by simp
        then show ?thesis using \<open>c = a\<close> neq par idp m0(2) by (auto simp: eq)
      qed
    qed
  qed
  show ?thesis using k' s1 s2 unfolding parentChildSymmetry_def ns'_def by blast
qed

lemma deleteNode_nodes_leaf_inv:
  assumes K: "keysAgree ns" and S: "parentChildSymmetry ns" and ex: "ns X = Some n"
    and leaf: "children n = []" and par: "parentId n \<noteq> Some []"
  shows "\<exists>ns'. deleteNode_nodes depth X n ns = Some ns' \<and> ns' X = None \<and> keysAgree ns' \<and> parentChildSymmetry ns'"
proof -
  define ns' where "ns' = (\<lambda>k. if k = X then None
      else if Some k = parentId n then map_option (\<lambda>pn. pn\<lparr>children := filter (\<lambda>i. i \<noteq> X) (children pn)\<rparr>) (ns k)
      else ns k)"
  have eq: "deleteNode_nodes depth X n ns = Some ns'"
    using leaf par by (auto simp: deleteNode_nodes_def ns'_def Let_def fun_eq_iff split: option.splits)
  have idn: "node_id n = X" using K ex by (simp add: keysAgree_def)
  have old: "\<exists>m0. ns k = Some m0 \<and> k \<noteq> X \<and> node_id m = node_id m0 \<and> parentId m = parentId m0 \<and>
              set (children m) = set (children m0) - {X}"
    if "ns' k = Some m" for k m
  proof -
    from that have kX: "k \<noteq> X" by (auto simp: ns'_def split: if_splits)
    show ?thesis
    proof (cases "Some k = parentId n")
      case True
      then show ?thesis using that kX by (auto simp: ns'_def)
    next
      case False
      then have m: "ns k = Some m" using that kX by (auto simp: ns'_def)
      have "X \<notin> set (children m)"
      proof
        assume "X \<in> set (children m)"
        then obtain cn where "ns X = Some cn" "parentId cn = Some (node_id m)"
          using S m unfolding parentChildSymmetry_def by blast
        then have "parentId n = Some k" using ex K m by (auto simp: keysAgree_def)
        then show False using False by simp
      qed
      then show ?thesis using m kX by auto
    qed
  qed
  have keep: "\<exists>qn'. ns' q = Some qn' \<and> set (children qn') = set (children qn) - {X} \<and>
                node_id qn' = node_id qn \<and> parentId qn' = parentId qn"
    if nq: "ns q = Some qn" and qX: "q \<noteq> X" for q qn
  proof (cases "Some q = parentId n")
    case True
    then show ?thesis using nq qX by (auto simp: ns'_def)
  next
    case False
    have "X \<notin> set (children qn)"
    proof
      assume "X \<in> set (children qn)"
      then obtain cn where "ns X = Some cn" "parentId cn = Some (node_id qn)"
        using S nq unfolding parentChildSymmetry_def by blast
      then have "parentId n = Some q" using ex K nq by (auto simp: keysAgree_def)
      then show False using False by simp
    qed
    then show ?thesis using nq qX False by (auto simp: ns'_def)
  qed
  have k': "keysAgree ns'"
    using K old unfolding keysAgree_def by metis
  have s1: "\<exists>qn. ns' q = Some qn \<and> node_id m \<in> set (children qn)"
    if km: "ns' k = Some m" and pm: "parentId m = Some q" for k m q
  proof -
    from old[OF km] obtain m0 where m0: "ns k = Some m0" "k \<noteq> X" "node_id m = node_id m0" "parentId m0 = Some q"
      using pm by auto
    then obtain qn where q: "ns q = Some qn" "node_id m0 \<in> set (children qn)"
      using S unfolding parentChildSymmetry_def by blast
    have "q \<noteq> X"
    proof
      assume "q = X"
      then show False using q ex leaf by simp
    qed
    moreover have "node_id m0 \<noteq> X" using K m0 by (auto simp: keysAgree_def)
    ultimately show ?thesis using keep[OF q(1)] q(2) m0(3) by auto
  qed
  have s2: "\<exists>cn. ns' c = Some cn \<and> parentId cn = Some (node_id qn)"
    if kq: "ns' k = Some qn" and cq: "c \<in> set (children qn)" for k qn c
  proof -
    from old[OF kq] obtain m0 where m0: "ns k = Some m0" "node_id qn = node_id m0" "c \<in> set (children m0)" "c \<noteq> X"
      using cq by auto
    then obtain cn where c: "ns c = Some cn" "parentId cn = Some (node_id m0)"
      using S unfolding parentChildSymmetry_def by blast
    from keep[OF c(1) m0(4)] c(2) m0(2) show ?thesis by auto
  qed
  have "ns' X = None" by (simp add: ns'_def)
  then show ?thesis using eq k' s1 s2 unfolding parentChildSymmetry_def by blast
qed

lemma currentNodes_example [simp]: "currentNodes (exampleWorld ns sel) = ns"
  by (simp add: currentNodes_def exampleWorld_def exampleSession_def)

lemma storeInv_createSession: "storeInv w \<Longrightarrow> storeInv (createSession dm ok now w)"
  by (auto simp: storeInv_def createSession_def Let_def currentNodes_def newSession_def
        rootNode_def keysAgree_def parentChildSymmetry_def split: if_splits)

lemma storeInv_addNode:
  assumes inv: "storeInv w" and fresh: "currentNodes w (node_id n) = None"
    and leaf: "children n = []" and par: "parentId n = Some p" "p \<noteq> []"
    and pex: "currentNodes w p \<noteq> None"
  shows "storeInv (addNode n ok now w)"
proof -
  from pex obtain cs where cs: "currentSession (store w) = Some cs"
    by (auto simp: currentNodes_def split: option.splits)
  from pex cs obtain pn where pn: "nodes cs p = Some pn"
    by (auto simp: currentNodes_def)
  have nodes: "currentNodes w = nodes cs" using cs by (simp add: currentNodes_def)
  have new: "keysAgree (addNode_nodes n (nodes cs)) \<and> parentChildSymmetry (addNode_nodes n (nodes cs))"
    using addNode_nodes_inv [of "nodes cs" n p pn] inv fresh leaf par pn nodes
    by (simp add: storeInv_def)
  show ?thesis
    using inv new cs
    by (auto simp: addNode_def addNode_call_def addNode_resolve_def addNode_session_def
          addNode_commit_def storeInv_def currentNodes_def)
qed

lemma storeInv_deleteNode_leaf:
  assumes inv: "storeInv w"
    and leaf: "\<forall>m. currentNodes w X = Some m \<longrightarrow> children m = [] \<and> parentId m \<noteq> Some []"
  shows "\<exists>w'. deleteNode depth X ok now w = Some w' \<and> storeInv w'"
proof (cases "currentSession (store w)")
  case None
  then show ?thesis using inv by (simp add: deleteNode_def Let_def)
next
  case (Some cs)
  have nodes: "currentNodes w = nodes cs" using Some by (simp add: currentNodes_def)
  show ?thesis
  proof (cases "truthy (currentSessionId (store w)) \<and> nodes cs X \<noteq> None")
    case False
    then show ?thesis using inv Some by (auto simp: deleteNode_def Let_def)
  next
    case True
    then obtain m where m: "nodes cs X = Some m" by auto
    with leaf nodes have lf: "children m = []" "parentId m \<noteq> Some []" by auto
    from deleteNode_nodes_leaf_inv [of "nodes cs" X m depth] inv nodes m lf
    obtain ns' where ns': "deleteNode_nodes depth X m (nodes cs) = Some ns'"
      "keysAgree ns'" "parentChildSymmetry ns'"
      by (auto simp: storeInv_def)
    then show ?thesis
      using True Some m inv
      by (auto simp: deleteNode_def Let_def storeInv_def currentNodes_def)
  qed
qed

text \<open>
  C3, as the code has it.  Parent/child symmetry (together with the fact that every node is
  stored under its own identifier) is preserved by session creation, by \<open>addNode\<close> of a node
  that has a fresh identifier, an empty child list and a non-empty parent reference to a stored
  node, and by \<open>deleteNode\<close> of a node that has no children and whose parent reference is not
  the empty string; such a \<open>deleteNode\<close> returns.  This holds whether the persistence call
  succeeds or fails.
\<close>

theorem symmetry_preserved:
  assumes "storeInv w"
  shows "storeInv (createSession dm ok now w)
       \<and> (currentNodes w (node_id n) = None \<and> children n = [] \<and> parentId n = Some p \<and> p \<noteq> []
            \<and> currentNodes w p \<noteq> None
          \<longrightarrow> storeInv (addNode n ok now w))
       \<and> ((\<forall>m. currentNodes w X = Some m \<longrightarrow> children m = [] \<and> parentId m \<noteq> Some [])
          \<longrightarrow> (\<exists>w'. deleteNode depth X ok now w = Some w' \<and> storeInv w'))"
  using assms storeInv_createSession storeInv_addNode storeInv_deleteNode_leaf by blast

lemma storeInv_initialWorld: "storeInv initialWorld"
  by (simp add: storeInv_def initialWorld_def initialStore_def currentNodes_def keysAgree_def
        parentChildSymmetry_def)

lemma storeInv_chain: "storeInv (exampleWorld chainNodes sel)"
  by (auto simp: storeInv_def keysAgree_def parentChildSymmetry_def chainNodes_def
        exampleNode_def js_def split: if_splits)

lemma storeInv_tree: "storeInv (exampleWorld treeNodes sel)"
  by (auto simp: storeInv_def keysAgree_def parentChildSymmetry_def treeNodes_def
        exampleNode_def js_def split: if_splits)

lemma storeInv_rootOnly: "storeInv (exampleWorld rootOnly sel)"
  by (auto simp: storeInv_def keysAgree_def parentChildSymmetry_def rootOnly_def rootNode_def
        split: if_splits)

theorem symmetry_preserved_witness:
  "storeInv (exampleWorld chainNodes (js ''C''))
   \<and> storeInv (createSession None True 7 (exampleWorld chainNodes (js ''C'')))
   \<and> storeInv (addNode (exampleNode (js ''D'') input [] (Some (js ''B'')) []) True 7
                 (exampleWorld chainNodes (js ''C'')))
   \<and> (\<exists>w'. deleteNode 0 (js ''C'') True 7 (exampleWorld chainNodes (js ''C'')) = Some w'
           \<and> storeInv w')"
proof -
  let ?w = "exampleWorld chainNodes (js ''C'')"
  let ?d = "exampleNode (js ''D'') input [] (Some (js ''B'')) []"
  have inv: "storeInv ?w" by (rule storeInv_chain)
  have add: "currentNodes ?w (node_id ?d) = None \<and> children ?d = [] \<and>
      parentId ?d = Some (js ''B'') \<and> js ''B'' \<noteq> [] \<and> currentNodes ?w (js ''B'') \<noteq> None"
    by (simp add: chainNodes_def exampleNode_def js_def)
  have del: "\<forall>m. currentNodes ?w (js ''C'') = Some m \<longrightarrow> children m = [] \<and> parentId m \<noteq> Some []"
    by (simp add: chainNodes_def exampleNode_def js_def)
  from symmetry_preserved [OF inv, of None True 7 ?d "js ''B''" "js ''C''" 0] inv add del
  show ?thesis by blast
qed

text \<open>
  The claim, as stated, asks of \<open>addNode\<close> only a fresh identifier and a stored parent.
  \<open>addNode\<close> stores the node as it is given: a node that arrives with a child list of its own
  breaks the symmetry.  And \<open>deleteNode\<close> of a node that has children breaks it too (see C2).
\<close>

theorem symmetry_counterexample:
  "storeInv (exampleWorld rootOnly (js ''root''))
   \<and> currentNodes (exampleWorld rootOnly (js ''root'')) (node_id ghostParent) = None
   \<and> parentId ghostParent = Some (js ''root'')
   \<and> currentNodes (exampleWorld rootOnly (js ''root'')) (js ''root'') \<noteq> None
   \<and> \<not> storeInv (addNode ghostParent True 2 (exampleWorld rootOnly (js ''root'')))
   \<and> storeInv (exampleWorld treeNodes (js ''X''))
   \<and> (\<exists>w'. deleteNode 5 (js ''X'') True 2 (exampleWorld treeNodes (js ''X'')) = Some w'
          \<and> \<not> storeInv w')"
proof -
  let ?w = "exampleWorld rootOnly (js ''root'')"
  have pre: "currentNodes ?w (node_id ghostParent) = None \<and> parentId ghostParent = Some (js ''root'')
      \<and> currentNodes ?w (js ''root'') \<noteq> None"
    by (simp add: rootOnly_def ghostParent_def exampleNode_def js_def)
  have a1: "map_option children (currentNodes (addNode ghostParent True 2 ?w) (js ''n1'')) = Some [js ''ghost'']"
    by code_simp
  have a2: "map_option node_id (currentNodes (addNode ghostParent True 2 ?w) (js ''ghost'')) = None"
    by code_simp
  have bad1: "\<not> storeInv (addNode ghostParent True 2 ?w)"
  proof
    assume "storeInv (addNode ghostParent True 2 ?w)"
    then have sym: "parentChildSymmetry (currentNodes (addNode ghostParent True 2 ?w))"
      by (simp add: storeInv_def)
    from a1 obtain m where m: "currentNodes (addNode ghostParent True 2 ?w) (js ''n1'') = Some m"
      "children m = [js ''ghost'']" by auto
    with sym obtain cn where "currentNodes (addNode ghostParent True 2 ?w) (js ''ghost'') = Some cn"
      unfolding parentChildSymmetry_def by fastforce
    with a2 show False by simp
  qed
  let ?v = "exampleWorld treeNodes (js ''X'')"
  have d1: "map_option (\<lambda>w. (map_option parentId (currentNodes w (js ''Y'')),
                             map_option node_id (currentNodes w (js ''X''))))
              (deleteNode 5 (js ''X'') True 2 ?v) = Some (Some (Some (js ''X'')), None)"
    by code_simp
  then obtain w' where w': "deleteNode 5 (js ''X'') True 2 ?v = Some w'"
    and y: "map_option parentId (currentNodes w' (js ''Y'')) = Some (Some (js ''X''))"
    and x: "currentNodes w' (js ''X'') = None"
    by auto
  have bad2: "\<not> storeInv w'"
  proof
    assume "storeInv w'"
    then have sym: "parentChildSymmetry (currentNodes w')" by (simp add: storeInv_def)
    from y obtain m where "currentNodes w' (js ''Y'') = Some m" "parentId m = Some (js ''X'')"
      by auto
    with sym obtain pn where "currentNodes w' (js ''X'') = Some pn"
      unfolding parentChildSymmetry_def by blast
    with x show False by simp
  qed
  show ?thesis using storeInv_rootOnly storeInv_tree pre bad1 w' bad2 by blast
qed


section \<open>Sending a message\<close>

subsection \<open>What \<open>updateNode\<close> and the chunk callback change\<close>

lemma hasNodeE:
  assumes "hasNode w i"
  obtains cs n where "currentSession (store w) = Some cs" "truthy (currentSessionId (store w))"
    "nodes cs i = Some n" "currentNodes w = nodes cs"
  using assms by (auto simp: hasNode_def currentNodes_def split: option.splits)

lemma updateNode_present:
  assumes "currentSession (store w) = Some cs" "truthy (currentSessionId (store w))" "nodes cs i = Some n"
  shows "updateNode i u b t w =
     w\<lparr>store := (store w)\<lparr>
          sessions := (sessions (store w))(the (currentSessionId (store w)) \<mapsto>
                         cs\<lparr>nodes := (nodes cs)(i \<mapsto> spread n u), updatedAt := t\<rparr>),
          currentSession := Some (cs\<lparr>nodes := (nodes cs)(i \<mapsto> spread n u), updatedAt := t\<rparr>)\<rparr>,
       persisted := (if b then persisted w @ [cs\<lparr>nodes := (nodes cs)(i \<mapsto> spread n u), updatedAt := t\<rparr>]
                     else persisted w)\<rparr>"
  using assms by (simp add: updateNode_def Let_def)

lemma updateNode_absent:
  "\<not> hasNode w i \<Longrightarrow> updateNode i u b t w = w"
  by (auto simp: updateNode_def hasNode_def currentNodes_def Let_def split: option.splits)

lemma updateNode_facts:
  assumes "hasNode w i"
  shows "currentNodes (updateNode i u b t w) = (currentNodes w)(i \<mapsto> spread (the (currentNodes w i)) u)"
    and "currentSessionId (store (updateNode i u b t w)) = currentSessionId (store w)"
    and "selectedNodeId (store (updateNode i u b t w)) = selectedNodeId (store w)"
    and "alerts (updateNode i u b t w) = alerts w"
    and "sent (updateNode i u b t w) = sent w"
    and "\<not> b \<Longrightarrow> persisted (updateNode i u b t w) = persisted w"
    and "b \<Longrightarrow> \<exists>S. persisted (updateNode i u b t w) = persisted w @ [S]
               \<and> currentSession (store (updateNode i u b t w)) = Some S"
    and "hasNode (updateNode i u b t w) j = hasNode w j"
proof -
  from assms obtain cs n where c: "currentSession (store w) = Some cs" "truthy (currentSessionId (store w))"
    "nodes cs i = Some n" "currentNodes w = nodes cs"
    by (rule hasNodeE)
  note eq = updateNode_present [OF c(1,2,3), of u b t]
  show "currentNodes (updateNode i u b t w) = (currentNodes w)(i \<mapsto> spread (the (currentNodes w i)) u)"
    using c by (simp add: eq currentNodes_def)
  show "currentSessionId (store (updateNode i u b t w)) = currentSessionId (store w)"
    by (simp add: eq)
  show "selectedNodeId (store (updateNode i u b t w)) = selectedNodeId (store w)"
    by (simp add: eq)
  show "alerts (updateNode i u b t w) = alerts w" by (simp add: eq)
  show "sent (updateNode i u b t w) = sent w" by (simp add: eq)
  show "\<not> b \<Longrightarrow> persisted (updateNode i u b t w) = persisted w" using eq by auto
  show "b \<Longrightarrow> \<exists>S. persisted (updateNode i u b t w) = persisted w @ [S]
               \<and> currentSession (store (updateNode i u b t w)) = Some S"
    using eq by auto
  show "hasNode (updateNode i u b t w) j = hasNode w j"
    using c by (simp add: eq hasNode_def currentNodes_def)
qed

lemma updateNode_unsaved_persisted [simp]:
  "persisted (updateNode i u False t w) = persisted w"
  by (cases "hasNode w i") (simp_all add: updateNode_facts updateNode_absent)

lemma updateNode_alerts [simp]: "alerts (updateNode i u b t w) = alerts w"
  by (cases "hasNode w i") (simp_all add: updateNode_facts updateNode_absent)

lemma updateNode_sent [simp]: "sent (updateNode i u b t w) = sent w"
  by (cases "hasNode w i") (simp_all add: updateNode_facts updateNode_absent)

lemma updateNode_hasNode [simp]: "hasNode (updateNode i u b t w) j = hasNode w j"
  by (cases "hasNode w i") (simp_all add: updateNode_facts updateNode_absent)

lemma updateNode_other:
  "j \<noteq> i \<Longrightarrow> currentNodes (updateNode i u b t w) j = currentNodes w j"
  by (cases "hasNode w i") (simp_all add: updateNode_facts updateNode_absent)

lemma updateNode_dom: "dom (currentNodes (updateNode i u b t w)) = dom (currentNodes w)"
proof (cases "hasNode w i")
  case True
  then have "i \<in> dom (currentNodes w)" by (auto simp: hasNode_def)
  then show ?thesis using True by (auto simp: updateNode_facts)
next
  case False
  then show ?thesis by (simp add: updateNode_absent)
qed

text \<open>The chunk callback and the stream.\<close>

lemma spread_fields [simp]:
  "children (spread n (noUpdates\<lparr>u_assistantMessage := a\<rparr>)) = children n"
  "children (spread n (noUpdates\<lparr>u_thinkingContent := a\<rparr>)) = children n"
  "assistantMessage (spread n (noUpdates\<lparr>u_assistantMessage := Some a'\<rparr>)) = a'"
  "assistantMessage (spread n (noUpdates\<lparr>u_thinkingContent := a\<rparr>)) = assistantMessage n"
  "thinkingContent (spread n (noUpdates\<lparr>u_thinkingContent := Some a'\<rparr>)) = a'"
  "thinkingContent (spread n (noUpdates\<lparr>u_assistantMessage := a\<rparr>)) = thinkingContent n"
  "parentId (spread n (noUpdates\<lparr>u_assistantMessage := a\<rparr>)) = parentId n"
  "parentId (spread n (noUpdates\<lparr>u_thinkingContent := a\<rparr>)) = parentId n"
  by (simp_all add: spread_def noUpdates_def overwrite_def)

lemma onChunk_facts:
  assumes "hasNode (world s) i"
  shows "hasNode (world (onChunk i s (ty, chunk, t))) j = hasNode (world s) j"
    and "persisted (world (onChunk i s (ty, chunk, t))) = persisted (world s)"
    and "ty \<noteq> thinking \<Longrightarrow> streamedContent (onChunk i s (ty, chunk, t)) = streamedContent s @ chunk
          \<and> streamedThinking (onChunk i s (ty, chunk, t)) = streamedThinking s
          \<and> nodeField assistantMessage (world (onChunk i s (ty, chunk, t))) i = Some (Some (streamedContent s @ chunk))
          \<and> nodeField thinkingContent (world (onChunk i s (ty, chunk, t))) i = nodeField thinkingContent (world s) i"
    and "ty = thinking \<Longrightarrow> streamedThinking (onChunk i s (ty, chunk, t)) = streamedThinking s @ chunk
          \<and> streamedContent (onChunk i s (ty, chunk, t)) = streamedContent s
          \<and> nodeField thinkingContent (world (onChunk i s (ty, chunk, t))) i = Some (Some (streamedThinking s @ chunk))
          \<and> nodeField assistantMessage (world (onChunk i s (ty, chunk, t))) i = nodeField assistantMessage (world s) i"
proof -
  from assms obtain n where n: "currentNodes (world s) i = Some n"
    by (auto simp: hasNode_def)
  show "hasNode (world (onChunk i s (ty, chunk, t))) j = hasNode (world s) j"
    by (simp add: onChunk_def Let_def)
  show "persisted (world (onChunk i s (ty, chunk, t))) = persisted (world s)"
    by (simp add: onChunk_def Let_def)
  show "ty \<noteq> thinking \<Longrightarrow> streamedContent (onChunk i s (ty, chunk, t)) = streamedContent s @ chunk
          \<and> streamedThinking (onChunk i s (ty, chunk, t)) = streamedThinking s
          \<and> nodeField assistantMessage (world (onChunk i s (ty, chunk, t))) i = Some (Some (streamedContent s @ chunk))
          \<and> nodeField thinkingContent (world (onChunk i s (ty, chunk, t))) i = nodeField thinkingContent (world s) i"
    using assms n by (simp add: onChunk_def Let_def nodeField_def updateNode_facts(1))
  show "ty = thinking \<Longrightarrow> streamedThinking (onChunk i s (ty, chunk, t)) = streamedThinking s @ chunk
          \<and> streamedContent (onChunk i s (ty, chunk, t)) = streamedContent s
          \<and> nodeField thinkingContent (world (onChunk i s (ty, chunk, t))) i = Some (Some (streamedThinking s @ chunk))
          \<and> nodeField assistantMessage (world (onChunk i s (ty, chunk, t))) i = nodeField assistantMessage (world s) i"
    using assms n by (simp add: onChunk_def Let_def nodeField_def updateNode_facts(1))
qed

lemma contentOf_simps [simp]:
  "contentOf [] = []"
  "contentOf ((ty, chunk, t) # cs) = (if ty = thinking then [] else chunk) @ contentOf cs"
  "contentOf (cs @ cs') = contentOf cs @ contentOf cs'"
  by (simp_all add: contentOf_def)

lemma thinkingOf_simps [simp]:
  "thinkingOf [] = []"
  "thinkingOf ((ty, chunk, t) # cs) = (if ty = thinking then chunk else []) @ thinkingOf cs"
  "thinkingOf (cs @ cs') = thinkingOf cs @ thinkingOf cs'"
  by (simp_all add: thinkingOf_def)

lemma thinkingOf_none: "\<forall>c \<in> set cs. fst c \<noteq> thinking \<Longrightarrow> thinkingOf cs = []"
  by (induction cs) auto

lemma contentOf_none: "\<forall>c \<in> set cs. fst c = thinking \<Longrightarrow> contentOf cs = []"
  by (induction cs) auto

lemma onChunk_frame:
  "alerts (world (onChunk i s c)) = alerts (world s)"
  "sent (world (onChunk i s c)) = sent (world s)"
  "persisted (world (onChunk i s c)) = persisted (world s)"
  "hasNode (world (onChunk i s c)) j = hasNode (world s) j"
  "dom (currentNodes (world (onChunk i s c))) = dom (currentNodes (world s))"
  "j \<noteq> i \<Longrightarrow> currentNodes (world (onChunk i s c)) j = currentNodes (world s) j"
  by (cases c; simp add: onChunk_def Let_def updateNode_dom updateNode_other)+

lemma onChunk_structure:
  "nodeField children (world (onChunk i s c)) i = nodeField children (world s) i"
  "nodeField parentId (world (onChunk i s c)) i = nodeField parentId (world s) i"
  "selectedNodeId (store (world (onChunk i s c))) = selectedNodeId (store (world s))"
proof -
  obtain ty chunk t where c: "c = (ty, chunk, t)" by (cases c)
  show "nodeField children (world (onChunk i s c)) i = nodeField children (world s) i"
  proof (cases "hasNode (world s) i")
    case True
    then obtain n where "currentNodes (world s) i = Some n" by (auto simp: hasNode_def)
    then show ?thesis using True
      by (simp add: c onChunk_def Let_def nodeField_def updateNode_facts(1))
  next
    case False
    then show ?thesis by (simp add: c onChunk_def Let_def updateNode_absent)
  qed
  show "nodeField parentId (world (onChunk i s c)) i = nodeField parentId (world s) i"
  proof (cases "hasNode (world s) i")
    case True
    then obtain n where "currentNodes (world s) i = Some n" by (auto simp: hasNode_def)
    then show ?thesis using True
      by (simp add: c onChunk_def Let_def nodeField_def updateNode_facts(1))
  next
    case False
    then show ?thesis by (simp add: c onChunk_def Let_def updateNode_absent)
  qed
  show "selectedNodeId (store (world (onChunk i s c))) = selectedNodeId (store (world s))"
    by (cases "hasNode (world s) i")
       (simp_all add: c onChunk_def Let_def updateNode_facts(3) updateNode_absent)
qed

lemma foldl_onChunk_frame:
  "alerts (world (foldl (onChunk i) s cs)) = alerts (world s)"
  "sent (world (foldl (onChunk i) s cs)) = sent (world s)"
  "persisted (world (foldl (onChunk i) s cs)) = persisted (world s)"
  "hasNode (world (foldl (onChunk i) s cs)) j = hasNode (world s) j"
  "dom (currentNodes (world (foldl (onChunk i) s cs))) = dom (currentNodes (world s))"
  "nodeField children (world (foldl (onChunk i) s cs)) i = nodeField children (world s) i"
  "nodeField parentId (world (foldl (onChunk i) s cs)) i = nodeField parentId (world s) i"
  "selectedNodeId (store (world (foldl (onChunk i) s cs))) = selectedNodeId (store (world s))"
  by (induction cs arbitrary: s; simp add: onChunk_frame onChunk_structure)+

lemma foldl_onChunk_other:
  "j \<noteq> i \<Longrightarrow> currentNodes (world (foldl (onChunk i) s cs)) j = currentNodes (world s) j"
  by (induction cs arbitrary: s) (simp_all add: onChunk_frame)

lemma foldl_onChunk_text:
  assumes "hasNode (world s) i"
  shows "streamedContent (foldl (onChunk i) s cs) = streamedContent s @ contentOf cs
       \<and> streamedThinking (foldl (onChunk i) s cs) = streamedThinking s @ thinkingOf cs
       \<and> nodeField assistantMessage (world (foldl (onChunk i) s cs)) i
            = (if \<exists>c \<in> set cs. fst c \<noteq> thinking then Some (Some (streamedContent s @ contentOf cs))
               else nodeField assistantMessage (world s) i)
       \<and> nodeField thinkingContent (world (foldl (onChunk i) s cs)) i
            = (if \<exists>c \<in> set cs. fst c = thinking then Some (Some (streamedThinking s @ thinkingOf cs))
               else nodeField thinkingContent (world s) i)"
  using assms
proof (induction cs arbitrary: s)
  case Nil
  then show ?case by simp
next
  case (Cons c cs)
  obtain ty chunk t where c: "c = (ty, chunk, t)" by (cases c)
  have h: "hasNode (world (onChunk i s c)) i" using Cons.prems by (simp add: onChunk_frame)
  note step = onChunk_facts [OF Cons.prems, of ty chunk t]
  note ih = Cons.IH [OF h]
  show ?case
  proof (cases "ty = thinking")
    case True
    then show ?thesis using ih step(4) c by (auto simp: thinkingOf_none contentOf_none)
  next
    case False
    then show ?thesis using ih step(3) c by (auto simp: thinkingOf_none contentOf_none)
  qed
qed

text \<open>Whether the walk ends depends on the parent references only.\<close>

lemma walk_None_parents:
  assumes "\<And>j. map_option parentId (ns j) = map_option parentId (ns' j)"
  shows "(walk k ns cur path = None) = (walk k ns' cur path' = None)"
proof (induction k arbitrary: cur path path')
  case 0
  then show ?case by simp
next
  case (Suc k)
  show ?case
  proof (cases "truthy cur")
    case False
    then show ?thesis by simp
  next
    case True
    show ?thesis
    proof (cases "ns (the cur)")
      case None
      then have "ns' (the cur) = None" using assms [of "the cur"] by simp
      then show ?thesis using None True by simp
    next
      case (Some n)
      then obtain n' where n': "ns' (the cur) = Some n'" "parentId n' = parentId n"
        using assms [of "the cur"] by (cases "ns' (the cur)") auto
      then show ?thesis using Some True Suc.IH [of "parentId n" "visit n path" "visit n' path'"] by simp
    qed
  qed
qed

subsection \<open>The steps before the request is sent\<close>

lemma truthy_Some: "truthy v \<Longrightarrow> v = Some (the v)"
  by (cases v) (simp_all add: truthy_def)

lemma updateNode_consistent:
  assumes "hasNode w i" "currentSessionId (store (updateNode i u b t w)) = Some sid"
  shows "sessions (store (updateNode i u b t w)) sid = currentSession (store (updateNode i u b t w))"
proof -
  from assms(1) obtain cs n where c: "currentSession (store w) = Some cs" "truthy (currentSessionId (store w))"
    "nodes cs i = Some n" "currentNodes w = nodes cs"
    by (rule hasNodeE)
  note eq = updateNode_present [OF c(1,2,3), of u b t]
  have "currentSessionId (store w) = Some sid" using assms(2) by (simp add: eq)
  then show ?thesis by (simp add: eq)
qed

lemma updateSessionTitle_frame:
  assumes "currentSessionId (store w) = Some sid \<longrightarrow> sessions (store w) sid = currentSession (store w)"
  shows "currentNodes (updateSessionTitle sid ti ok t w) = currentNodes w"
    and "currentSessionId (store (updateSessionTitle sid ti ok t w)) = currentSessionId (store w)"
    and "selectedNodeId (store (updateSessionTitle sid ti ok t w)) = selectedNodeId (store w)"
    and "alerts (updateSessionTitle sid ti ok t w) = alerts w"
    and "sent (updateSessionTitle sid ti ok t w) = sent w"
    and "\<exists>pre. persisted (updateSessionTitle sid ti ok t w) = persisted w @ pre"
  using assms
  by (auto simp: updateSessionTitle_def Let_def currentNodes_def split: option.splits)

lemma spread_conversion [simp]:
  "children (spread n (noUpdates\<lparr>u_type := a, u_content := b, u_userMessage := c,
      u_assistantMessage := Some d, u_timestamp := e, u_quotedContent := f, u_model := g\<rparr>)) = children n"
  "parentId (spread n (noUpdates\<lparr>u_type := a, u_content := b, u_userMessage := c,
      u_assistantMessage := Some d, u_timestamp := e, u_quotedContent := f, u_model := g\<rparr>)) = parentId n"
  "assistantMessage (spread n (noUpdates\<lparr>u_type := a, u_content := b, u_userMessage := c,
      u_assistantMessage := Some d, u_timestamp := e, u_quotedContent := f, u_model := g\<rparr>)) = d"
  by (simp_all add: spread_def noUpdates_def overwrite_def)

lemma beginSend_input:
  assumes inp: "type (arg_node args) = input" and has: "hasNode w (node_id (arg_node args))"
  shows "\<exists>w1. beginSend args um m session env w = (node_id (arg_node args), pos_y (position (arg_node args)), w1)
     \<and> (\<forall>j. hasNode w1 j = hasNode w j)
     \<and> alerts w1 = alerts w \<and> sent w1 = sent w
     \<and> selectedNodeId (store w1) = selectedNodeId (store w)
     \<and> dom (currentNodes w1) = dom (currentNodes w)
     \<and> (\<forall>j. map_option parentId (currentNodes w1 j) = map_option parentId (currentNodes w j))
     \<and> nodeField children w1 (node_id (arg_node args)) = nodeField children w (node_id (arg_node args))
     \<and> nodeField assistantMessage w1 (node_id (arg_node args)) = Some None
     \<and> (\<exists>pre. persisted w1 = persisted w @ pre)"
proof -
  define i where "i = node_id (arg_node args)"
  define u where "u = noUpdates\<lparr>u_type := Some conversation, u_content := Some um,
              u_userMessage := Some (Some um), u_assistantMessage := Some None,
              u_timestamp := Some (t_send env), u_quotedContent := Some (arg_quoted args),
              u_model := Some (modelLabel m)\<rparr>"
  define wa where "wa = updateNode i u True (t_send env) w"
  define retitle where "retitle = (title session = newSessionTitle \<and> i = js ''root'')"
  define w1 where "w1 = (if retitle
             then updateSessionTitle (session_id session) (sessionTitle um) (ok_title env) (t_send env) wa
             else wa)"
  have has': "hasNode w i" using has by (simp add: i_def)
  from has' obtain n where n: "currentNodes w i = Some n" by (auto simp: hasNode_def)
  have eq: "beginSend args um m session env w = (i, pos_y (position (arg_node args)), w1)"
    using inp by (simp add: beginSend_def Let_def w1_def wa_def u_def i_def retitle_def)
  have a_nodes: "currentNodes wa = (currentNodes w)(i \<mapsto> spread n u)"
    using updateNode_facts(1) [OF has', of u True "t_send env"] n by (simp add: wa_def)
  obtain S where a_pers: "persisted wa = persisted w @ [S]"
    using updateNode_facts(7) [OF has', of True u "t_send env"] by (auto simp: wa_def)
  have cons: "currentSessionId (store wa) = Some sid \<longrightarrow> sessions (store wa) sid = currentSession (store wa)" for sid
    using updateNode_consistent [OF has'] by (simp add: wa_def)
  note tf = updateSessionTitle_frame [OF cons, of "session_id session" "sessionTitle um" "ok_title env" "t_send env"]
  have nodes1: "currentNodes w1 = currentNodes wa" using tf(1) by (simp add: w1_def)
  have sid1: "currentSessionId (store w1) = currentSessionId (store w)"
    using tf(2) updateNode_facts(2) [OF has', of u True "t_send env"] by (simp add: w1_def wa_def)
  have sp: "children (spread n u) = children n" "parentId (spread n u) = parentId n"
    "assistantMessage (spread n u) = None"
    by (simp_all add: u_def)
  have "\<forall>j. hasNode w1 j = hasNode w j"
    using nodes1 sid1 a_nodes n by (auto simp: hasNode_def)
  moreover have "alerts w1 = alerts w" using tf(4) by (simp add: w1_def wa_def)
  moreover have "sent w1 = sent w" using tf(5) by (simp add: w1_def wa_def)
  moreover have "selectedNodeId (store w1) = selectedNodeId (store w)"
    using tf(3) updateNode_facts(3) [OF has', of u True "t_send env"] by (simp add: w1_def wa_def)
  moreover have "dom (currentNodes w1) = dom (currentNodes w)"
    using nodes1 a_nodes n by auto
  moreover have "\<forall>j. map_option parentId (currentNodes w1 j) = map_option parentId (currentNodes w j)"
    using nodes1 a_nodes n sp by simp
  moreover have "nodeField children w1 i = nodeField children w i"
    using nodes1 a_nodes n sp by (simp add: nodeField_def)
  moreover have "nodeField assistantMessage w1 i = Some None"
    using nodes1 a_nodes n sp by (simp add: nodeField_def)
  moreover have "\<exists>pre. persisted w1 = persisted w @ pre"
  proof (cases retitle)
    case True
    then show ?thesis using tf(6) a_pers by (auto simp: w1_def)
  next
    case False
    then show ?thesis using a_pers by (simp add: w1_def)
  qed
  ultimately show ?thesis using eq unfolding i_def by blast
qed

lemma getConversationPath_None_parents:
  assumes "currentSession st = Some cs" "currentSession st' = Some cs'"
    and "selectedNodeId st' = selectedNodeId st"
    and "\<And>j. map_option parentId (nodes cs' j) = map_option parentId (nodes cs j)"
  shows "(getConversationPath k st' = None) = (getConversationPath k st = None)"
  using assms walk_None_parents [of "nodes cs'" "nodes cs" k "selectedNodeId st" "[]" "[]"]
  by (simp add: getConversationPath_def)

subsection \<open>The whole of \<open>handleSend\<close> on an input node\<close>

lemma handleSend_input:
  assumes inp: "type (arg_node args) = input" and has: "hasNode w (node_id (arg_node args))"
    and msg: "trim (arg_input args) \<noteq> []"
    and sess: "arg_session args = Some session" and model: "arg_model args = Some m"
    and walk: "getConversationPath k (store w) \<noteq> None"
  shows "\<exists>w1 w3. beginSend args (trim (arg_input args)) m session env w
            = (node_id (arg_node args), pos_y (position (arg_node args)), w1)
     \<and> handleSend k args env w
          = Some (finishSend (node_id (arg_node args)) (arg_node args) (pos_y (position (arg_node args)))
                    (trim (arg_input args)) env (stream (node_id (arg_node args)) (env_chunks env) w3))
     \<and> hasNode w3 (node_id (arg_node args))
     \<and> persisted w3 = persisted w1 \<and> alerts w3 = alerts w
     \<and> dom (currentNodes w3) = dom (currentNodes w)
     \<and> nodeField children w3 (node_id (arg_node args)) = nodeField children w (node_id (arg_node args))
     \<and> nodeField assistantMessage w3 (node_id (arg_node args)) = Some None"
proof -
  define i where "i = node_id (arg_node args)"
  define um where "um = trim (arg_input args)"
  from beginSend_input [OF inp has, of um m session env]
  obtain w1 where w1: "beginSend args um m session env w = (i, pos_y (position (arg_node args)), w1)"
    "\<forall>j. hasNode w1 j = hasNode w j" "alerts w1 = alerts w"
    "selectedNodeId (store w1) = selectedNodeId (store w)"
    "dom (currentNodes w1) = dom (currentNodes w)"
    "\<forall>j. map_option parentId (currentNodes w1 j) = map_option parentId (currentNodes w j)"
    "nodeField children w1 i = nodeField children w i"
    "nodeField assistantMessage w1 i = Some None"
    unfolding i_def by blast
  define w2 where "w2 = setQuotedContent None w1"
  have has1: "hasNode w1 i" using w1(2) has by (simp add: i_def)
  from has obtain cs where cs: "currentSession (store w) = Some cs" "currentNodes w = nodes cs"
    by (rule hasNodeE)
  from has1 obtain cs1 where cs1: "currentSession (store w1) = Some cs1" "currentNodes w1 = nodes cs1"
    by (rule hasNodeE)
  have cur2: "currentSession (store w2) = Some cs1" "selectedNodeId (store w2) = selectedNodeId (store w)"
    using cs1 w1(4) by (simp_all add: w2_def setQuotedContent_def)
  have "\<And>j. map_option parentId (nodes cs1 j) = map_option parentId (nodes cs j)"
    using w1(6) cs cs1 by simp
  from getConversationPath_None_parents [OF cs(1) cur2(1) cur2(2) this, of k] walk
  obtain path where path: "getConversationPath k (store w2) = Some path" by auto
  define w3 where "w3 = w2\<lparr>sent := sent w2 @ [map turn path @ [(user, finalUserMessage (arg_quoted args) um)]]\<rparr>"
  have same: "currentNodes w3 = currentNodes w1" "currentSessionId (store w3) = currentSessionId (store w1)"
    "persisted w3 = persisted w1" "alerts w3 = alerts w1"
    by (simp_all add: w3_def w2_def setQuotedContent_def currentNodes_def)
  have hs: "handleSend k args env w
          = Some (finishSend i (arg_node args) (pos_y (position (arg_node args))) um env
                    (stream i (env_chunks env) w3))"
    using msg sess model w1(1) path
    by (simp add: handleSend_def Let_def um_def [symmetric] w2_def [symmetric] w3_def [symmetric])
  have h3: "hasNode w3 i" using has1 same by (simp add: hasNode_def)
  have d3: "dom (currentNodes w3) = dom (currentNodes w)" using same w1(5) by simp
  have c3: "nodeField children w3 i = nodeField children w i"
    using same w1(7) by (simp add: nodeField_def)
  have a3: "nodeField assistantMessage w3 i = Some None"
    using same w1(8) by (simp add: nodeField_def)
  have al: "alerts w3 = alerts w" using same(4) w1(3) by simp
  show ?thesis
  proof (intro exI conjI)
    show "beginSend args (trim (arg_input args)) m session env w
            = (node_id (arg_node args), pos_y (position (arg_node args)), w1)"
      using w1(1) by (simp add: i_def um_def)
    show "handleSend k args env w
          = Some (finishSend (node_id (arg_node args)) (arg_node args) (pos_y (position (arg_node args)))
                    (trim (arg_input args)) env (stream (node_id (arg_node args)) (env_chunks env) w3))"
      using hs by (simp add: i_def um_def)
    show "hasNode w3 (node_id (arg_node args))" using h3 by (simp add: i_def)
    show "persisted w3 = persisted w1" by (rule same(3))
    show "alerts w3 = alerts w" by (rule al)
    show "dom (currentNodes w3) = dom (currentNodes w)" by (rule d3)
    show "nodeField children w3 (node_id (arg_node args)) = nodeField children w (node_id (arg_node args))"
      using c3 by (simp add: i_def)
    show "nodeField assistantMessage w3 (node_id (arg_node args)) = Some None"
      using a3 by (simp add: i_def)
  qed
qed

lemma addNode_child:
  assumes has: "hasNode w i" and ne: "i \<noteq> []" and par: "parentId n = Some i" and fresh: "node_id n \<noteq> i"
  shows "\<exists>S. persisted (addNode n ok t w) = persisted w @ [S]
            \<and> nodes S = (currentNodes w)
                  (node_id n \<mapsto> n,
                   i \<mapsto> (the (currentNodes w i))
                          \<lparr>children := children (the (currentNodes w i)) @ [node_id n]\<rparr>)
            \<and> currentNodes (addNode n ok t w) = (if ok then nodes S else currentNodes w)
            \<and> (ok \<longrightarrow> currentSession (store (addNode n ok t w)) = Some S)"
    and "alerts (addNode n ok t w) = alerts w"
    and "selectedNodeId (store (addNode n ok t w)) = selectedNodeId (store w)"
proof -
  from has obtain cs pn where c: "currentSession (store w) = Some cs" "truthy (currentSessionId (store w))"
    "nodes cs i = Some pn" "currentNodes w = nodes cs"
    by (rule hasNodeE)
  let ?S = "cs\<lparr>nodes := addNode_nodes n (nodes cs), updatedAt := t\<rparr>"
  have nodes: "addNode_nodes n (nodes cs) = (nodes cs)(node_id n \<mapsto> n, i \<mapsto> pn\<lparr>children := children pn @ [node_id n]\<rparr>)"
    using par ne fresh c(3) by (simp add: addNode_nodes_def Let_def)
  have sess: "addNode_session n t (store w) = Some ?S"
    using c by (simp add: addNode_session_def)
  have eq: "addNode n ok t w =
      (if ok then w\<lparr>persisted := persisted w @ [?S], store := addNode_commit (store w) ?S (store w)\<rparr>
       else w\<lparr>persisted := persisted w @ [?S]\<rparr>)"
    using sess by (simp add: addNode_def addNode_call_def addNode_resolve_def)
  have p: "persisted (addNode n ok t w) = persisted w @ [?S]" by (simp add: eq)
  have n: "nodes ?S = (currentNodes w)
                  (node_id n \<mapsto> n,
                   i \<mapsto> (the (currentNodes w i))
                          \<lparr>children := children (the (currentNodes w i)) @ [node_id n]\<rparr>)"
    using c(3,4) by (simp add: nodes)
  have cur: "currentNodes (addNode n ok t w) = (if ok then nodes ?S else currentNodes w)"
    by (simp add: eq addNode_commit_def currentNodes_def)
  have cs': "ok \<longrightarrow> currentSession (store (addNode n ok t w)) = Some ?S"
    using eq by (cases ok) (simp_all add: addNode_commit_def)
  from p n cur cs'
  show "\<exists>S. persisted (addNode n ok t w) = persisted w @ [S]
            \<and> nodes S = (currentNodes w)
                  (node_id n \<mapsto> n,
                   i \<mapsto> (the (currentNodes w i))
                          \<lparr>children := children (the (currentNodes w i)) @ [node_id n]\<rparr>)
            \<and> currentNodes (addNode n ok t w) = (if ok then nodes S else currentNodes w)
            \<and> (ok \<longrightarrow> currentSession (store (addNode n ok t w)) = Some S)"
    by blast
  show "alerts (addNode n ok t w) = alerts w" by (simp add: eq)
  show "selectedNodeId (store (addNode n ok t w)) = selectedNodeId (store w)"
    by (simp add: eq addNode_commit_def)
qed

lemma finishSend_failed:
  assumes "env_outcome env = Rejected e" "\<not> isAbort e"
  shows "finishSend i node baseY um env s
           = (world s)\<lparr>alerts := alerts (world s)
                @ [sendFailed @ (case e of ErrorObject name msg \<Rightarrow> msg | NotAnError \<Rightarrow> unknownError)]\<rparr>"
  using assms by (simp add: finishSend_def caught_def)

lemma finishSend_abort_empty:
  assumes "env_outcome env = Rejected e" "isAbort e" "streamedContent s = []"
  shows "finishSend i node baseY um env s = world s"
  using assms by (simp add: finishSend_def caught_def)

lemma finishSend_abort_content:
  assumes "env_outcome env = Rejected e" "isAbort e" "streamedContent s \<noteq> []" "i \<noteq> []"
  shows "finishSend i node baseY um env s
           = selectNode (node_id (newInputNode i node baseY um (streamedContent s) (t_finally env)))
               (addNode (newInputNode i node baseY um (streamedContent s) (t_finally env))
                  (ok_finally env) (t_finally env)
                  (updateNode i
                     (noUpdates\<lparr>u_assistantMessage := Some (Some (streamedContent s @ stopMark)),
                        u_thinkingContent := Some (if streamedThinking s = [] then None
                                                   else Some (streamedThinking s)),
                        u_timestamp := Some (t_end env)\<rparr>)
                     True (t_end env) (world s)))"
  using assms by (simp add: finishSend_def caught_def Let_def)

lemma newInputNode_fields [simp]:
  "node_id (newInputNode i node baseY um sc t) = js ''input-'' @ decimal t"
  "parentId (newInputNode i node baseY um sc t) = Some i"
  "type (newInputNode i node baseY um sc t) = input"
  "children (newInputNode i node baseY um sc t) = []"
  by (simp_all add: newInputNode_def Let_def)

lemma selectNode_frame [simp]:
  "currentNodes (selectNode j w) = currentNodes w"
  "persisted (selectNode j w) = persisted w"
  "alerts (selectNode j w) = alerts w"
  "selectedNodeId (store (selectNode j w)) = Some j"
  "nodeField f (selectNode j w) k = nodeField f w k"
  by (simp_all add: selectNode_def currentNodes_def nodeField_def)

lemma spread_final [simp]:
  "assistantMessage (spread n (noUpdates\<lparr>u_assistantMessage := Some a, u_thinkingContent := b, u_timestamp := c\<rparr>)) = a"
  "children (spread n (noUpdates\<lparr>u_assistantMessage := Some a, u_thinkingContent := b, u_timestamp := c\<rparr>)) = children n"
  by (simp_all add: spread_def noUpdates_def overwrite_def)

subsection \<open>The stream, and how it ends\<close>

lemma stream_facts:
  assumes "hasNode w i"
  shows "hasNode (world (stream i cs w)) i"
    and "persisted (world (stream i cs w)) = persisted w"
    and "alerts (world (stream i cs w)) = alerts w"
    and "dom (currentNodes (world (stream i cs w))) = dom (currentNodes w)"
    and "nodeField children (world (stream i cs w)) i = nodeField children w i"
    and "streamedContent (stream i cs w) = contentOf cs"
    and "streamedThinking (stream i cs w) = thinkingOf cs"
    and "nodeField assistantMessage (world (stream i cs w)) i
           = (if \<exists>c \<in> set cs. fst c \<noteq> thinking then Some (Some (contentOf cs))
              else nodeField assistantMessage w i)"
    and "nodeField thinkingContent (world (stream i cs w)) i
           = (if \<exists>c \<in> set cs. fst c = thinking then Some (Some (thinkingOf cs))
              else nodeField thinkingContent w i)"
  using assms
    foldl_onChunk_text [of "\<lparr>streamedContent = [], streamedThinking = [], world = w\<rparr>" i cs]
  by (simp_all add: stream_def foldl_onChunk_frame)

lemma saved_update:
  assumes "hasNode w i"
  shows "\<exists>S. persisted (updateNode i u True t w) = persisted w @ [S]
           \<and> currentSession (store (updateNode i u True t w)) = Some S
           \<and> nodes S = currentNodes (updateNode i u True t w)
           \<and> nodes S i = Some (spread (the (currentNodes w i)) u)
           \<and> dom (nodes S) = dom (currentNodes w)"
proof -
  from updateNode_facts(7) [OF assms, of True u t]
  obtain S where S: "persisted (updateNode i u True t w) = persisted w @ [S]"
    "currentSession (store (updateNode i u True t w)) = Some S" by auto
  then have n: "nodes S = currentNodes (updateNode i u True t w)" by (simp add: currentNodes_def)
  moreover have "currentNodes (updateNode i u True t w) i = Some (spread (the (currentNodes w i)) u)"
    using updateNode_facts(1) [OF assms, of u True t] by simp
  moreover have "dom (currentNodes (updateNode i u True t w)) = dom (currentNodes w)"
    by (rule updateNode_dom)
  ultimately show ?thesis using S by auto
qed

text \<open>
  C4, as the code has it.  Let the conversation node be stored in the current session when the
  stream starts.  Then no chunk merge makes a persistence call, neither over the whole stream nor
  up to any chunk of it, and after each chunk the node in memory carries everything received so
  far: the content chunks in \<open>assistantMessage\<close>, the thinking chunks in \<open>thinkingContent\<close>.
  When the transport resolves with the streamed content, the \<open>updateNode\<close> that follows makes
  exactly one persistence call, and the session it sends carries the whole content.  When the
  user cancels and some content has arrived, the \<open>updateNode\<close> of the \<open>catch\<close> block makes
  exactly one persistence call, and the session it sends carries the content followed by the
  stop mark.  When the user cancels and no content has arrived, the \<open>catch\<close> block leaves the
  state as the stream has left it: no persistence call is made.
\<close>

theorem stream_durability:
  assumes "hasNode w i"
  shows "persisted (world (stream i cs w)) = persisted w
     \<and> (\<forall>k < length cs.
           persisted (world (stream i (take (Suc k) cs) w)) = persisted w
         \<and> (fst (cs ! k) \<noteq> thinking \<longrightarrow>
              nodeField assistantMessage (world (stream i (take (Suc k) cs) w)) i
                = Some (Some (contentOf (take (Suc k) cs))))
         \<and> (fst (cs ! k) = thinking \<longrightarrow>
              nodeField thinkingContent (world (stream i (take (Suc k) cs) w)) i
                = Some (Some (thinkingOf (take (Suc k) cs)))))
     \<and> (\<exists>S. persisted (completed i (streamedResponse cs) env (world (stream i cs w))) = persisted w @ [S]
            \<and> map_option assistantMessage (nodes S i) = Some (Some (contentOf cs)))
     \<and> (isAbort e \<and> i \<noteq> [] \<and> contentOf cs \<noteq> [] \<longrightarrow>
          (\<exists>S w'. caught i e (stream i cs w) env = (True, w') \<and> persisted w' = persisted w @ [S]
              \<and> map_option assistantMessage (nodes S i) = Some (Some (contentOf cs @ stopMark))))
     \<and> (isAbort e \<and> contentOf cs = [] \<longrightarrow>
          caught i e (stream i cs w) env = (False, world (stream i cs w)))"
proof -
  have p1: "persisted (world (stream i cs w)) = persisted w"
    by (rule stream_facts(2) [OF assms])
  have p2: "persisted (world (stream i (take (Suc k) cs) w)) = persisted w
         \<and> (fst (cs ! k) \<noteq> thinking \<longrightarrow>
              nodeField assistantMessage (world (stream i (take (Suc k) cs) w)) i
                = Some (Some (contentOf (take (Suc k) cs))))
         \<and> (fst (cs ! k) = thinking \<longrightarrow>
              nodeField thinkingContent (world (stream i (take (Suc k) cs) w)) i
                = Some (Some (thinkingOf (take (Suc k) cs))))" if k: "k < length cs" for k
  proof (intro conjI impI)
    from k have mem: "cs ! k \<in> set (take (Suc k) cs)"
      by (simp add: take_Suc_conv_app_nth)
    show "persisted (world (stream i (take (Suc k) cs) w)) = persisted w"
      by (rule stream_facts(2) [OF assms])
    {
      assume "fst (cs ! k) \<noteq> thinking"
      with mem have "\<exists>c \<in> set (take (Suc k) cs). fst c \<noteq> thinking" by blast
      then show "nodeField assistantMessage (world (stream i (take (Suc k) cs) w)) i
                = Some (Some (contentOf (take (Suc k) cs)))"
        by (simp only: stream_facts(8) [OF assms] if_True)
    }
    {
      assume "fst (cs ! k) = thinking"
      with mem have "\<exists>c \<in> set (take (Suc k) cs). fst c = thinking" by blast
      then show "nodeField thinkingContent (world (stream i (take (Suc k) cs) w)) i
                = Some (Some (thinkingOf (take (Suc k) cs)))"
        by (simp only: stream_facts(9) [OF assms] if_True)
    }
  qed
  let ?s = "stream i cs w"
  have h: "hasNode (world ?s) i" by (rule stream_facts(1) [OF assms])
  have p3: "\<exists>S. persisted (completed i (streamedResponse cs) env (world ?s)) = persisted w @ [S]
            \<and> map_option assistantMessage (nodes S i) = Some (Some (contentOf cs))"
    using saved_update [OF h, of "noUpdates\<lparr>u_assistantMessage := Some (Some (contentOf cs)),
          u_thinkingContent := Some (response_thinkingContent (streamedResponse cs)),
          u_timestamp := Some (t_end env)\<rparr>" "t_end env"]
      stream_facts(2) [OF assms, of cs]
    by (auto simp: completed_def streamedResponse_def)
  have p4: "\<exists>S w'. caught i e ?s env = (True, w') \<and> persisted w' = persisted w @ [S]
              \<and> map_option assistantMessage (nodes S i) = Some (Some (contentOf cs @ stopMark))"
    if a: "isAbort e \<and> i \<noteq> [] \<and> contentOf cs \<noteq> []"
    using saved_update [OF h, of "noUpdates\<lparr>u_assistantMessage := Some (Some (contentOf cs @ stopMark)),
          u_thinkingContent := Some (if thinkingOf cs = [] then None else Some (thinkingOf cs)),
          u_timestamp := Some (t_end env)\<rparr>" "t_end env"]
      a stream_facts(2,6,7) [OF assms, of cs]
    by (auto simp: caught_def Let_def)
  have p5: "caught i e (stream i cs w) env = (False, world (stream i cs w))"
    if "isAbort e \<and> contentOf cs = []"
    using that stream_facts(6) [OF assms, of cs] by (simp add: caught_def)
  from p1 p2 p3 p4 p5 show ?thesis by blast
qed

text \<open>
  What \<open>handleSend\<close> does when the user cancels after some content has arrived, whether the
  persistence call of \<open>addNode\<close> succeeds or fails.
\<close>

lemma handleSend_cancelled:
  assumes inp: "type (arg_node args) = input" and has: "hasNode w (node_id (arg_node args))"
    and ne: "node_id (arg_node args) \<noteq> []"
    and msg: "trim (arg_input args) \<noteq> []"
    and sess: "arg_session args = Some session" and model: "arg_model args = Some m"
    and walk: "getConversationPath k (store w) \<noteq> None"
    and out: "env_outcome env = Rejected e" and abort: "isAbort e"
    and content: "contentOf (env_chunks env) \<noteq> []"
    and fresh: "js ''input-'' @ decimal (t_finally env) \<noteq> node_id (arg_node args)"
  shows "\<exists>w' w1 S S' child.
       handleSend k args env w = Some w'
     \<and> beginSend args (trim (arg_input args)) m session env w
          = (node_id (arg_node args), pos_y (position (arg_node args)), w1)
     \<and> persisted w' = persisted w1 @ [S, S']
     \<and> map_option assistantMessage (nodes S (node_id (arg_node args)))
          = Some (Some (contentOf (env_chunks env) @ stopMark))
     \<and> dom (nodes S) = dom (currentNodes w)
     \<and> map_option children (nodes S (node_id (arg_node args)))
          = nodeField children w (node_id (arg_node args))
     \<and> map_option assistantMessage (nodes S' (node_id (arg_node args)))
          = Some (Some (contentOf (env_chunks env) @ stopMark))
     \<and> dom (nodes S') = insert (js ''input-'' @ decimal (t_finally env)) (dom (currentNodes w))
     \<and> nodes S' (js ''input-'' @ decimal (t_finally env)) = Some child
     \<and> type child = input \<and> parentId child = Some (node_id (arg_node args)) \<and> children child = []
     \<and> map_option children (nodes S' (node_id (arg_node args)))
          = Some (the (nodeField children w (node_id (arg_node args)))
                    @ [js ''input-'' @ decimal (t_finally env)])
     \<and> currentNodes w' = (if ok_finally env then nodes S' else nodes S)
     \<and> nodeField assistantMessage w' (node_id (arg_node args))
          = Some (Some (contentOf (env_chunks env) @ stopMark))
     \<and> selectedNodeId (store w') = Some (js ''input-'' @ decimal (t_finally env))"
proof -
  define i where "i = node_id (arg_node args)"
  define um where "um = trim (arg_input args)"
  define baseY where "baseY = pos_y (position (arg_node args))"
  from handleSend_input [OF inp has msg sess model walk, of env]
  obtain w1 w3 where b: "beginSend args um m session env w = (i, baseY, w1)"
    and hs: "handleSend k args env w
               = Some (finishSend i (arg_node args) baseY um env (stream i (env_chunks env) w3))"
    and w3: "hasNode w3 i" "persisted w3 = persisted w1" "alerts w3 = alerts w"
      "dom (currentNodes w3) = dom (currentNodes w)"
      "nodeField children w3 i = nodeField children w i"
    unfolding i_def um_def baseY_def by blast
  define s where "s = stream i (env_chunks env) w3"
  note sf = stream_facts [OF w3(1), of "env_chunks env", folded s_def]
  define u where "u = noUpdates\<lparr>u_assistantMessage := Some (Some (streamedContent s @ stopMark)),
                        u_thinkingContent := Some (if streamedThinking s = [] then None
                                                   else Some (streamedThinking s)),
                        u_timestamp := Some (t_end env)\<rparr>"
  define w4 where "w4 = updateNode i u True (t_end env) (world s)"
  define n2 where "n2 = newInputNode i (arg_node args) baseY um (streamedContent s) (t_finally env)"
  define newId where "newId = js ''input-'' @ decimal (t_finally env)"
  define msg' where "msg' = contentOf (env_chunks env) @ stopMark"
  define ok where "ok = ok_finally env"
  have id2: "node_id n2 = newId" "parentId n2 = Some i" "type n2 = input" "children n2 = []"
    by (simp_all add: n2_def newId_def)
  have sc: "streamedContent s \<noteq> []" using content sf(6) by simp
  have ne': "i \<noteq> []" using ne by (simp add: i_def)
  have fin: "finishSend i (arg_node args) baseY um env s = selectNode newId (addNode n2 ok (t_finally env) w4)"
    unfolding finishSend_abort_content [OF out abort sc ne'] n2_def [symmetric] u_def [symmetric]
      w4_def [symmetric] id2(1) ok_def by simp
  from saved_update [OF sf(1), of u "t_end env"]
  obtain S where S: "persisted w4 = persisted (world s) @ [S]" "nodes S = currentNodes w4"
    "nodes S i = Some (spread (the (currentNodes (world s) i)) u)" "dom (nodes S) = dom (currentNodes (world s))"
    unfolding w4_def by blast
  have h4: "hasNode w4 i" using sf(1) by (simp add: w4_def)
  have am4: "map_option assistantMessage (nodes S i) = Some (Some msg')"
    using S(3) sf(6) by (simp add: u_def msg'_def)
  have ch4: "map_option children (nodes S i) = nodeField children w i"
    using S(3) sf(1,5) w3(5) by (auto simp: nodeField_def u_def hasNode_def)
  have domS: "dom (nodes S) = dom (currentNodes w)" using S(4) sf(4) w3(4) by simp
  have fr: "node_id n2 \<noteq> i" using fresh id2(1) by (simp add: newId_def i_def)
  let ?a = "addNode n2 ok (t_finally env) w4"
  from addNode_child(1) [OF h4 ne' id2(2) fr, of ok "t_finally env"]
  obtain S' where S': "persisted ?a = persisted w4 @ [S']"
    "nodes S' = (nodes S)(newId \<mapsto> n2,
        i \<mapsto> (the (nodes S i))\<lparr>children := children (the (nodes S i)) @ [newId]\<rparr>)"
    "currentNodes ?a = (if ok then nodes S' else nodes S)"
    unfolding S(2) [symmetric] id2(1) by blast
  have iS: "i \<in> dom (nodes S)" using S(3) by blast
  have new': "nodes S' newId = Some n2" using fr id2(1) by (simp add: S'(2))
  have am': "map_option assistantMessage (nodes S' i) = Some (Some msg')"
    using am4 by (auto simp: S'(2))
  have ch': "map_option children (nodes S' i) = Some (the (nodeField children w i) @ [newId])"
    using ch4 [symmetric] iS by (auto simp: S'(2))
  have dom': "dom (nodes S') = insert newId (dom (currentNodes w))"
    using iS domS by (auto simp: S'(2))
  let ?w' = "selectNode newId ?a"
  have cur: "currentNodes ?w' = (if ok then nodes S' else nodes S)" using S'(3) by simp
  have mem: "nodeField assistantMessage ?w' i = Some (Some msg')"
    using am4 am' by (simp add: nodeField_def S'(3))
  show ?thesis
    unfolding i_def [symmetric] um_def [symmetric] baseY_def [symmetric] newId_def [symmetric]
      msg'_def [symmetric] ok_def [symmetric]
  proof (intro exI conjI)
    show "handleSend k args env w = Some ?w'" using hs fin by (simp add: s_def)
    show "beginSend args um m session env w = (i, baseY, w1)" by (rule b)
    show "persisted ?w' = persisted w1 @ [S, S']"
      using S'(1) S(1) sf(2) w3(2) by simp
    show "map_option assistantMessage (nodes S i) = Some (Some msg')" by (rule am4)
    show "dom (nodes S) = dom (currentNodes w)" by (rule domS)
    show "map_option children (nodes S i) = nodeField children w i" by (rule ch4)
    show "map_option assistantMessage (nodes S' i) = Some (Some msg')" by (rule am')
    show "dom (nodes S') = insert newId (dom (currentNodes w))" by (rule dom')
    show "nodes S' newId = Some n2" by (rule new')
    show "type n2 = input" by (rule id2(3))
    show "parentId n2 = Some i" by (rule id2(2))
    show "children n2 = []" by (rule id2(4))
    show "map_option children (nodes S' i) = Some (the (nodeField children w i) @ [newId])" by (rule ch')
    show "currentNodes ?w' = (if ok then nodes S' else nodes S)" by (rule cur)
    show "nodeField assistantMessage ?w' i = Some (Some msg')" by (rule mem)
    show "selectedNodeId (store ?w') = Some newId" by simp
  qed
qed

text \<open>
  C5, as the code has it.  \<open>handleSend\<close> is called on an input node that is stored in the
  current session, with a message that is not blank, a session and a model; the transport
  delivers the chunks of the environment and is then cancelled (it rejects with an
  \<open>AbortError\<close>), after at least one non-empty content chunk; the identifier of the new node
  is not that of the node itself.  Then \<open>handleSend\<close> returns, and after the calls made before
  the request was sent exactly two persistence calls are made.  The first is that of the
  \<open>catch\<close> block, with a session \<open>S\<close> that has the same nodes as before, in which the node
  has the children it had and its \<open>assistantMessage\<close> is the concatenation of the content
  chunks followed by the stop mark: two line feeds, three hyphens, a line feed, and the note
  that generation was stopped, in square brackets between two asterisks.  The second is that
  of \<open>addNode\<close>, with a session \<open>S'\<close> in which the node carries the same content and which
  has one node more: an input node with no children whose parent reference is the node, and
  which is appended to the node's child list.  The session in memory has the nodes of \<open>S'\<close>
  when the persistence call of \<open>addNode\<close> succeeds, and those of \<open>S\<close>, without the new node,
  when it fails.  In both cases the node in memory carries the content with the stop mark, and
  the identifier of the new node is selected.
\<close>

theorem cancel_keeps_streamed_content:
  assumes inp: "type (arg_node args) = input" and has: "hasNode w (node_id (arg_node args))"
    and ne: "node_id (arg_node args) \<noteq> []"
    and msg: "trim (arg_input args) \<noteq> []"
    and sess: "arg_session args = Some session" and model: "arg_model args = Some m"
    and walk: "getConversationPath k (store w) \<noteq> None"
    and out: "env_outcome env = Rejected e" and abort: "isAbort e"
    and content: "contentOf (env_chunks env) \<noteq> []"
    and fresh: "js ''input-'' @ decimal (t_finally env) \<noteq> node_id (arg_node args)"
  shows "\<exists>w' w1 S S' child.
       handleSend k args env w = Some w'
     \<and> beginSend args (trim (arg_input args)) m session env w
          = (node_id (arg_node args), pos_y (position (arg_node args)), w1)
     \<and> persisted w' = persisted w1 @ [S, S']
     \<and> map_option assistantMessage (nodes S (node_id (arg_node args)))
          = Some (Some (contentOf (env_chunks env) @
                 [10, 10, 45, 45, 45, 10, 42, 91, 29983, 25104, 24050, 20572, 27490, 93, 42]))
     \<and> dom (nodes S) = dom (currentNodes w)
     \<and> map_option children (nodes S (node_id (arg_node args)))
          = nodeField children w (node_id (arg_node args))
     \<and> map_option assistantMessage (nodes S' (node_id (arg_node args)))
          = Some (Some (contentOf (env_chunks env) @
                 [10, 10, 45, 45, 45, 10, 42, 91, 29983, 25104, 24050, 20572, 27490, 93, 42]))
     \<and> dom (nodes S') = insert (js ''input-'' @ decimal (t_finally env)) (dom (currentNodes w))
     \<and> nodes S' (js ''input-'' @ decimal (t_finally env)) = Some child
     \<and> type child = input \<and> parentId child = Some (node_id (arg_node args)) \<and> children child = []
     \<and> map_option children (nodes S' (node_id (arg_node args)))
          = Some (the (nodeField children w (node_id (arg_node args)))
                    @ [js ''input-'' @ decimal (t_finally env)])
     \<and> currentNodes w' = (if ok_finally env then nodes S' else nodes S)
     \<and> nodeField assistantMessage w' (node_id (arg_node args))
          = Some (Some (contentOf (env_chunks env) @
                 [10, 10, 45, 45, 45, 10, 42, 91, 29983, 25104, 24050, 20572, 27490, 93, 42]))
     \<and> selectedNodeId (store w') = Some (js ''input-'' @ decimal (t_finally env))"
  using handleSend_cancelled [OF assms] by (simp only: stopMark_def)

text \<open>
  C6, as the code has it.  \<open>handleSend\<close> is called as in C5, and the transport rejects with
  something that is not an \<open>AbortError\<close>.  Then \<open>handleSend\<close> returns; one alert is raised,
  with the text \<open>sendFailed\<close> followed by the message of the error; the session has the same
  nodes as before and the node has the same children, so no input node has been created; no
  persistence call is made after those made before the request was sent.  The node in memory
  keeps the content streamed up to the failure: its \<open>assistantMessage\<close> is the concatenation
  of the content chunks when there has been one, and is undefined otherwise.
\<close>

theorem failure_outcome:
  assumes inp: "type (arg_node args) = input" and has: "hasNode w (node_id (arg_node args))"
    and msg: "trim (arg_input args) \<noteq> []"
    and sess: "arg_session args = Some session" and model: "arg_model args = Some m"
    and walk: "getConversationPath k (store w) \<noteq> None"
    and out: "env_outcome env = Rejected e" and fail: "\<not> isAbort e"
  shows "\<exists>w' w1.
       handleSend k args env w = Some w'
     \<and> beginSend args (trim (arg_input args)) m session env w
          = (node_id (arg_node args), pos_y (position (arg_node args)), w1)
     \<and> alerts w' = alerts w
          @ [sendFailed @ (case e of ErrorObject name msg \<Rightarrow> msg | NotAnError \<Rightarrow> unknownError)]
     \<and> dom (currentNodes w') = dom (currentNodes w)
     \<and> nodeField children w' (node_id (arg_node args)) = nodeField children w (node_id (arg_node args))
     \<and> persisted w' = persisted w1
     \<and> nodeField assistantMessage w' (node_id (arg_node args))
          = (if \<exists>c \<in> set (env_chunks env). fst c \<noteq> thinking
             then Some (Some (contentOf (env_chunks env))) else Some None)"
proof -
  define i where "i = node_id (arg_node args)"
  define um where "um = trim (arg_input args)"
  define baseY where "baseY = pos_y (position (arg_node args))"
  from handleSend_input [OF inp has msg sess model walk, of env]
  obtain w1 w3 where b: "beginSend args um m session env w = (i, baseY, w1)"
    and hs: "handleSend k args env w
               = Some (finishSend i (arg_node args) baseY um env (stream i (env_chunks env) w3))"
    and w3: "hasNode w3 i" "persisted w3 = persisted w1" "alerts w3 = alerts w"
      "dom (currentNodes w3) = dom (currentNodes w)"
      "nodeField children w3 i = nodeField children w i"
      "nodeField assistantMessage w3 i = Some None"
    unfolding i_def um_def baseY_def by blast
  define s where "s = stream i (env_chunks env) w3"
  note sf = stream_facts [OF w3(1), of "env_chunks env", folded s_def]
  define w' where "w' = (world s)\<lparr>alerts := alerts (world s)
                @ [sendFailed @ (case e of ErrorObject name msg \<Rightarrow> msg | NotAnError \<Rightarrow> unknownError)]\<rparr>"
  have fin: "finishSend i (arg_node args) baseY um env s = w'"
    using finishSend_failed [OF out fail] by (simp add: w'_def)
  have same: "currentNodes w' = currentNodes (world s)" "persisted w' = persisted (world s)"
    by (simp_all add: w'_def currentNodes_def)
  show ?thesis
  proof (intro exI conjI)
    show "handleSend k args env w = Some w'" using hs fin by (simp add: s_def)
    show "beginSend args (trim (arg_input args)) m session env w
          = (node_id (arg_node args), pos_y (position (arg_node args)), w1)"
      using b by (simp add: i_def um_def baseY_def)
    show "alerts w' = alerts w
          @ [sendFailed @ (case e of ErrorObject name msg \<Rightarrow> msg | NotAnError \<Rightarrow> unknownError)]"
      using sf(3) w3(3) by (simp add: w'_def)
    show "dom (currentNodes w') = dom (currentNodes w)" using same(1) sf(4) w3(4) by simp
    show "nodeField children w' (node_id (arg_node args)) = nodeField children w (node_id (arg_node args))"
      using same(1) sf(5) w3(5) by (simp add: nodeField_def i_def)
    show "persisted w' = persisted w1" using same(2) sf(2) w3(2) by simp
    show "nodeField assistantMessage w' (node_id (arg_node args))
          = (if \<exists>c \<in> set (env_chunks env). fst c \<noteq> thinking
             then Some (Some (contentOf (env_chunks env))) else Some None)"
      using same(1) sf(8) w3(6) by (simp add: nodeField_def i_def)
  qed
qed

subsection \<open>The example run: input node C of the chain, message \<open>Hi\<close>\<close>

lemma example_prelude:
  "type (arg_node exampleArgs) = input"
  "node_id (arg_node exampleArgs) = js ''C''"
  "hasNode (exampleWorld chainNodes (js ''C'')) (js ''C'')"
  "js ''C'' \<noteq> []"
  "trim (arg_input exampleArgs) = js ''Hi''"
  "js ''Hi'' \<noteq> []"
  "arg_session exampleArgs = Some (exampleSession chainNodes)"
  "arg_model exampleArgs = Some (exampleConfig (js ''A'') 1)"
  "env_chunks (exampleEnv cs out) = cs"
  "env_outcome (exampleEnv cs out) = out"
  "ok_finally (exampleEnv cs out)"
  "t_finally (exampleEnv cs out) = 21"
  "pos_y (position (arg_node exampleArgs)) = 0"
  by (simp_all add: exampleArgs_def exampleNode_def hasNode_def exampleWorld_def truthy_def js_def
      chainNodes_def exampleEnv_def trim_def isWhiteSpace_def currentNodes_def exampleSession_def)

lemma example_path: "getConversationPath 5 (store (exampleWorld chainNodes (js ''C''))) \<noteq> None"
  by code_simp

lemma example_chunks:
  "contentOf helloChunks = js ''Hello''"
  "contentOf thinkingChunks = []"
  "contentOf (take 1 helloChunks) = js ''Hel''"
  "isAbort abortError"
  "\<not> isAbort networkError"
  "js ''input-'' @ decimal 21 \<noteq> js ''C''"
  by (simp_all add: contentOf_def helloChunks_def thinkingChunks_def js_def isAbort_def
      abortError_def networkError_def)


lemma handleSend_cancelled_empty:
  assumes inp: "type (arg_node args) = input" and has: "hasNode w (node_id (arg_node args))"
    and msg: "trim (arg_input args) \<noteq> []"
    and sess: "arg_session args = Some session" and model: "arg_model args = Some m"
    and walk: "getConversationPath k (store w) \<noteq> None"
    and out: "env_outcome env = Rejected e" and abort: "isAbort e"
    and empty: "contentOf (env_chunks env) = []"
  shows "\<exists>w' w1.
       handleSend k args env w = Some w'
     \<and> beginSend args (trim (arg_input args)) m session env w
          = (node_id (arg_node args), pos_y (position (arg_node args)), w1)
     \<and> persisted w' = persisted w1
     \<and> dom (currentNodes w') = dom (currentNodes w)
     \<and> nodeField thinkingContent w' (node_id (arg_node args))
          = (if \<exists>c \<in> set (env_chunks env). fst c = thinking
             then Some (Some (thinkingOf (env_chunks env)))
             else nodeField thinkingContent w' (node_id (arg_node args)))"
proof -
  define i where "i = node_id (arg_node args)"
  define um where "um = trim (arg_input args)"
  define baseY where "baseY = pos_y (position (arg_node args))"
  from handleSend_input [OF inp has msg sess model walk, of env]
  obtain w1 w3 where b: "beginSend args um m session env w = (i, baseY, w1)"
    and hs: "handleSend k args env w
               = Some (finishSend i (arg_node args) baseY um env (stream i (env_chunks env) w3))"
    and w3: "hasNode w3 i" "persisted w3 = persisted w1"
      "dom (currentNodes w3) = dom (currentNodes w)"
    unfolding i_def um_def baseY_def by blast
  define s where "s = stream i (env_chunks env) w3"
  note sf = stream_facts [OF w3(1), of "env_chunks env", folded s_def]
  have fin: "finishSend i (arg_node args) baseY um env s = world s"
    using finishSend_abort_empty [OF out abort] sf(6) empty by simp
  show ?thesis
  proof (intro exI conjI)
    show "handleSend k args env w = Some (world s)" using hs fin by (simp add: s_def)
    show "beginSend args (trim (arg_input args)) m session env w
          = (node_id (arg_node args), pos_y (position (arg_node args)), w1)"
      using b by (simp add: i_def um_def baseY_def)
    show "persisted (world s) = persisted w1" using sf(2) w3(2) by simp
    show "dom (currentNodes (world s)) = dom (currentNodes w)" using sf(4) w3(3) by simp
    show "nodeField thinkingContent (world s) (node_id (arg_node args))
          = (if \<exists>c \<in> set (env_chunks env). fst c = thinking
             then Some (Some (thinkingOf (env_chunks env)))
             else nodeField thinkingContent (world s) (node_id (arg_node args)))"
      using sf(9) by (simp add: i_def)
  qed
qed

text \<open>
  The claim says that exactly one persistence call follows a cancellation.  The \<open>catch\<close> block
  saves only when \<open>streamedContent\<close> is a non-empty string.  In the example run, the transport
  delivers one thinking chunk and is then cancelled: the persistence calls at the end of
  \<open>handleSend\<close> are those made before the request was sent, and the thinking text is in the
  node in memory only.
\<close>

theorem cancel_before_content_saves_nothing:
  "\<exists>w' w1. handleSend 5 exampleArgs (exampleEnv thinkingChunks (Rejected abortError))
               (exampleWorld chainNodes (js ''C'')) = Some w'
     \<and> beginSend exampleArgs (js ''Hi'') (exampleConfig (js ''A'') 1) (exampleSession chainNodes)
          (exampleEnv thinkingChunks (Rejected abortError)) (exampleWorld chainNodes (js ''C''))
          = (js ''C'', 0, w1)
     \<and> persisted w' = persisted w1
     \<and> nodeField thinkingContent w' (js ''C'') = Some (Some (js ''Hmm''))"
proof -
  have th: "\<exists>c \<in> set thinkingChunks. fst c = thinking" "thinkingOf thinkingChunks = js ''Hmm''"
    by (simp_all add: thinkingChunks_def thinkingOf_def)
  have msg: "trim (arg_input exampleArgs) \<noteq> []"
    by (simp only: example_prelude(5)) (rule example_prelude(6))
  have has: "hasNode (exampleWorld chainNodes (js ''C'')) (node_id (arg_node exampleArgs))"
    by (simp only: example_prelude(2,3))
  have empty: "contentOf (env_chunks (exampleEnv thinkingChunks (Rejected abortError))) = []"
    by (simp only: example_prelude(9) example_chunks(2))
  from handleSend_cancelled_empty [OF example_prelude(1) has msg example_prelude(7,8) example_path
      example_prelude(10) example_chunks(4) empty]
  have "\<exists>w' w1. handleSend 5 exampleArgs (exampleEnv thinkingChunks (Rejected abortError))
               (exampleWorld chainNodes (js ''C'')) = Some w'
     \<and> beginSend exampleArgs (js ''Hi'') (exampleConfig (js ''A'') 1) (exampleSession chainNodes)
          (exampleEnv thinkingChunks (Rejected abortError)) (exampleWorld chainNodes (js ''C''))
          = (js ''C'', 0, w1)
     \<and> persisted w' = persisted w1
     \<and> dom (currentNodes w') = dom (currentNodes (exampleWorld chainNodes (js ''C'')))
     \<and> nodeField thinkingContent w' (js ''C'') = Some (Some (js ''Hmm''))"
    by (simp only: example_prelude(2,5,9,13) th if_True)
  then show ?thesis by blast
qed

theorem stream_durability_witness:
  "hasNode (exampleWorld chainNodes (js ''C'')) (js ''C'')
   \<and> persisted (world (stream (js ''C'') helloChunks (exampleWorld chainNodes (js ''C'')))) = []
   \<and> persisted (world (stream (js ''C'') (take 1 helloChunks) (exampleWorld chainNodes (js ''C'')))) = []
   \<and> nodeField assistantMessage
        (world (stream (js ''C'') (take 1 helloChunks) (exampleWorld chainNodes (js ''C'')))) (js ''C'')
        = Some (Some (js ''Hel''))
   \<and> (\<exists>S. persisted (completed (js ''C'') (streamedResponse helloChunks)
                (exampleEnv helloChunks (Resolved (streamedResponse helloChunks)))
                (world (stream (js ''C'') helloChunks (exampleWorld chainNodes (js ''C''))))) = [S]
          \<and> map_option assistantMessage (nodes S (js ''C'')) = Some (Some (js ''Hello'')))
   \<and> (\<exists>S w'. caught (js ''C'') abortError
                (stream (js ''C'') helloChunks (exampleWorld chainNodes (js ''C'')))
                (exampleEnv helloChunks (Resolved (streamedResponse helloChunks))) = (True, w')
          \<and> persisted w' = [S]
          \<and> map_option assistantMessage (nodes S (js ''C'')) = Some (Some (js ''Hello'' @ stopMark)))"
proof -
  let ?w = "exampleWorld chainNodes (js ''C'')"
  let ?env = "exampleEnv helloChunks (Resolved (streamedResponse helloChunks))"
  note d = stream_durability [OF example_prelude(3), of helloChunks ?env abortError]
  have p: "persisted ?w = []" by (simp add: exampleWorld_def)
  have k: "(0::nat) < length helloChunks" "fst (helloChunks ! 0) \<noteq> thinking"
    by (simp_all add: helloChunks_def)
  from d have d1: "persisted (world (stream (js ''C'') helloChunks ?w)) = persisted ?w" by blast
  from d k(1) have d2: "persisted (world (stream (js ''C'') (take (Suc 0) helloChunks) ?w)) = persisted ?w
         \<and> (fst (helloChunks ! 0) \<noteq> thinking \<longrightarrow>
              nodeField assistantMessage (world (stream (js ''C'') (take (Suc 0) helloChunks) ?w)) (js ''C'')
                = Some (Some (contentOf (take (Suc 0) helloChunks))))" by blast
  from d have d3: "\<exists>S. persisted (completed (js ''C'') (streamedResponse helloChunks) ?env
                (world (stream (js ''C'') helloChunks ?w))) = persisted ?w @ [S]
            \<and> map_option assistantMessage (nodes S (js ''C'')) = Some (Some (contentOf helloChunks))"
    by blast
  from d have d4: "isAbort abortError \<and> js ''C'' \<noteq> [] \<and> contentOf helloChunks \<noteq> [] \<longrightarrow>
          (\<exists>S w'. caught (js ''C'') abortError (stream (js ''C'') helloChunks ?w) ?env = (True, w')
              \<and> persisted w' = persisted ?w @ [S]
              \<and> map_option assistantMessage (nodes S (js ''C''))
                   = Some (Some (contentOf helloChunks @ stopMark)))"
    by blast
  have c: "contentOf helloChunks \<noteq> []" by (simp add: example_chunks(1) js_def)
  from d4 example_chunks(4) example_prelude(4) c
  have d4': "\<exists>S w'. caught (js ''C'') abortError (stream (js ''C'') helloChunks ?w) ?env = (True, w')
              \<and> persisted w' = persisted ?w @ [S]
              \<and> map_option assistantMessage (nodes S (js ''C''))
                   = Some (Some (contentOf helloChunks @ stopMark))"
    by blast
  from d2 k(2) example_chunks(3) p
  have d2': "persisted (world (stream (js ''C'') (take 1 helloChunks) ?w)) = []"
    "nodeField assistantMessage (world (stream (js ''C'') (take 1 helloChunks) ?w)) (js ''C'')
       = Some (Some (js ''Hel''))"
    by simp_all
  show ?thesis
    using example_prelude(3) d1 d2' d3 d4' by (simp add: p example_chunks(1))
qed

lemma example_env:
  "env_chunks (offlineEnv cs out) = cs"
  "env_outcome (offlineEnv cs out) = out"
  "\<not> ok_finally (offlineEnv cs out)"
  "t_finally (offlineEnv cs out) = 21"
  by (simp_all add: offlineEnv_def exampleEnv_def)

lemma example_children: "nodeField children (exampleWorld chainNodes (js ''C'')) (js ''C'') = Some []"
  by (simp add: nodeField_def chainNodes_def exampleNode_def js_def)

theorem cancel_keeps_streamed_content_witness:
  "type (arg_node exampleArgs) = input
   \<and> hasNode (exampleWorld chainNodes (js ''C'')) (js ''C'')
   \<and> isAbort abortError
   \<and> contentOf helloChunks = js ''Hello''
   \<and> ok_finally (exampleEnv helloChunks (Rejected abortError))
   \<and> (\<exists>w' w1 S S' child.
         handleSend 5 exampleArgs (exampleEnv helloChunks (Rejected abortError))
           (exampleWorld chainNodes (js ''C'')) = Some w'
       \<and> beginSend exampleArgs (js ''Hi'') (exampleConfig (js ''A'') 1) (exampleSession chainNodes)
            (exampleEnv helloChunks (Rejected abortError)) (exampleWorld chainNodes (js ''C''))
            = (js ''C'', 0, w1)
       \<and> persisted w' = persisted w1 @ [S, S']
       \<and> map_option assistantMessage (nodes S (js ''C''))
            = Some (Some (js ''Hello'' @ [10, 10, 45, 45, 45, 10, 42, 91, 29983, 25104, 24050, 20572, 27490, 93, 42]))
       \<and> dom (nodes S) = dom chainNodes
       \<and> map_option children (nodes S (js ''C'')) = Some []
       \<and> map_option assistantMessage (nodes S' (js ''C''))
            = Some (Some (js ''Hello'' @ [10, 10, 45, 45, 45, 10, 42, 91, 29983, 25104, 24050, 20572, 27490, 93, 42]))
       \<and> dom (nodes S') = insert (js ''input-'' @ decimal 21) (dom chainNodes)
       \<and> nodes S' (js ''input-'' @ decimal 21) = Some child
       \<and> type child = input \<and> parentId child = Some (js ''C'') \<and> children child = []
       \<and> map_option children (nodes S' (js ''C'')) = Some [js ''input-'' @ decimal 21]
       \<and> currentNodes w' = nodes S'
       \<and> nodeField assistantMessage w' (js ''C'')
            = Some (Some (js ''Hello'' @ [10, 10, 45, 45, 45, 10, 42, 91, 29983, 25104, 24050, 20572, 27490, 93, 42]))
       \<and> selectedNodeId (store w') = Some (js ''input-'' @ decimal 21))
   \<and> \<not> ok_finally (offlineEnv helloChunks (Rejected abortError))
   \<and> (\<exists>w' w1 S S' child.
         handleSend 5 exampleArgs (offlineEnv helloChunks (Rejected abortError))
           (exampleWorld chainNodes (js ''C'')) = Some w'
       \<and> beginSend exampleArgs (js ''Hi'') (exampleConfig (js ''A'') 1) (exampleSession chainNodes)
            (offlineEnv helloChunks (Rejected abortError)) (exampleWorld chainNodes (js ''C''))
            = (js ''C'', 0, w1)
       \<and> persisted w' = persisted w1 @ [S, S']
       \<and> map_option assistantMessage (nodes S (js ''C''))
            = Some (Some (js ''Hello'' @ [10, 10, 45, 45, 45, 10, 42, 91, 29983, 25104, 24050, 20572, 27490, 93, 42]))
       \<and> dom (nodes S) = dom chainNodes
       \<and> map_option children (nodes S (js ''C'')) = Some []
       \<and> map_option assistantMessage (nodes S' (js ''C''))
            = Some (Some (js ''Hello'' @ [10, 10, 45, 45, 45, 10, 42, 91, 29983, 25104, 24050, 20572, 27490, 93, 42]))
       \<and> dom (nodes S') = insert (js ''input-'' @ decimal 21) (dom chainNodes)
       \<and> nodes S' (js ''input-'' @ decimal 21) = Some child
       \<and> type child = input \<and> parentId child = Some (js ''C'') \<and> children child = []
       \<and> map_option children (nodes S' (js ''C'')) = Some [js ''input-'' @ decimal 21]
       \<and> currentNodes w' = nodes S
       \<and> nodeField assistantMessage w' (js ''C'')
            = Some (Some (js ''Hello'' @ [10, 10, 45, 45, 45, 10, 42, 91, 29983, 25104, 24050, 20572, 27490, 93, 42]))
       \<and> selectedNodeId (store w') = Some (js ''input-'' @ decimal 21))"
proof -
  let ?w = "exampleWorld chainNodes (js ''C'')"
  have msg: "trim (arg_input exampleArgs) \<noteq> []"
    by (simp only: example_prelude(5)) (rule example_prelude(6))
  have has: "hasNode ?w (node_id (arg_node exampleArgs))"
    by (simp only: example_prelude(2,3))
  have ne: "node_id (arg_node exampleArgs) \<noteq> []"
    by (simp only: example_prelude(2)) (rule example_prelude(4))
  have content: "contentOf (env_chunks (exampleEnv helloChunks out)) \<noteq> []"
    "contentOf (env_chunks (offlineEnv helloChunks out)) \<noteq> []" for out
    by (simp_all add: example_prelude(9) example_env(1) example_chunks(1) js_def)
  have fresh: "js ''input-'' @ decimal (t_finally (exampleEnv helloChunks out)) \<noteq> node_id (arg_node exampleArgs)"
    "js ''input-'' @ decimal (t_finally (offlineEnv helloChunks out)) \<noteq> node_id (arg_node exampleArgs)" for out
    by (simp_all only: example_prelude(2,12) example_env(4)) (rule example_chunks(6))+
  have ch: "the (Some ([] :: jstring list)) @ [js ''input-'' @ decimal 21] = [js ''input-'' @ decimal 21]"
    by simp
  have 1: "\<exists>w' w1 S S' child.
         handleSend 5 exampleArgs (exampleEnv helloChunks (Rejected abortError))
           (exampleWorld chainNodes (js ''C'')) = Some w'
       \<and> beginSend exampleArgs (js ''Hi'') (exampleConfig (js ''A'') 1) (exampleSession chainNodes)
            (exampleEnv helloChunks (Rejected abortError)) (exampleWorld chainNodes (js ''C''))
            = (js ''C'', 0, w1)
       \<and> persisted w' = persisted w1 @ [S, S']
       \<and> map_option assistantMessage (nodes S (js ''C''))
            = Some (Some (js ''Hello'' @ [10, 10, 45, 45, 45, 10, 42, 91, 29983, 25104, 24050, 20572, 27490, 93, 42]))
       \<and> dom (nodes S) = dom chainNodes
       \<and> map_option children (nodes S (js ''C'')) = Some []
       \<and> map_option assistantMessage (nodes S' (js ''C''))
            = Some (Some (js ''Hello'' @ [10, 10, 45, 45, 45, 10, 42, 91, 29983, 25104, 24050, 20572, 27490, 93, 42]))
       \<and> dom (nodes S') = insert (js ''input-'' @ decimal 21) (dom chainNodes)
       \<and> nodes S' (js ''input-'' @ decimal 21) = Some child
       \<and> type child = input \<and> parentId child = Some (js ''C'') \<and> children child = []
       \<and> map_option children (nodes S' (js ''C'')) = Some [js ''input-'' @ decimal 21]
       \<and> currentNodes w' = nodes S'
       \<and> nodeField assistantMessage w' (js ''C'')
            = Some (Some (js ''Hello'' @ [10, 10, 45, 45, 45, 10, 42, 91, 29983, 25104, 24050, 20572, 27490, 93, 42]))
       \<and> selectedNodeId (store w') = Some (js ''input-'' @ decimal 21)"
    using cancel_keeps_streamed_content [OF example_prelude(1) has ne msg example_prelude(7,8)
        example_path example_prelude(10) example_chunks(4) content(1) fresh(1)]
    by (simp only: example_prelude(2,5,9,11,12,13) example_chunks(1) example_children ch
          currentNodes_example if_True)
  have 2: "\<exists>w' w1 S S' child.
         handleSend 5 exampleArgs (offlineEnv helloChunks (Rejected abortError))
           (exampleWorld chainNodes (js ''C'')) = Some w'
       \<and> beginSend exampleArgs (js ''Hi'') (exampleConfig (js ''A'') 1) (exampleSession chainNodes)
            (offlineEnv helloChunks (Rejected abortError)) (exampleWorld chainNodes (js ''C''))
            = (js ''C'', 0, w1)
       \<and> persisted w' = persisted w1 @ [S, S']
       \<and> map_option assistantMessage (nodes S (js ''C''))
            = Some (Some (js ''Hello'' @ [10, 10, 45, 45, 45, 10, 42, 91, 29983, 25104, 24050, 20572, 27490, 93, 42]))
       \<and> dom (nodes S) = dom chainNodes
       \<and> map_option children (nodes S (js ''C'')) = Some []
       \<and> map_option assistantMessage (nodes S' (js ''C''))
            = Some (Some (js ''Hello'' @ [10, 10, 45, 45, 45, 10, 42, 91, 29983, 25104, 24050, 20572, 27490, 93, 42]))
       \<and> dom (nodes S') = insert (js ''input-'' @ decimal 21) (dom chainNodes)
       \<and> nodes S' (js ''input-'' @ decimal 21) = Some child
       \<and> type child = input \<and> parentId child = Some (js ''C'') \<and> children child = []
       \<and> map_option children (nodes S' (js ''C'')) = Some [js ''input-'' @ decimal 21]
       \<and> currentNodes w' = nodes S
       \<and> nodeField assistantMessage w' (js ''C'')
            = Some (Some (js ''Hello'' @ [10, 10, 45, 45, 45, 10, 42, 91, 29983, 25104, 24050, 20572, 27490, 93, 42]))
       \<and> selectedNodeId (store w') = Some (js ''input-'' @ decimal 21)"
    using cancel_keeps_streamed_content [OF example_prelude(1) has ne msg example_prelude(7,8)
        example_path example_env(2) example_chunks(4) content(2) fresh(2)]
    by (simp only: example_prelude(2,5,13) example_env example_chunks(1) example_children ch
          currentNodes_example if_False)
  show ?thesis
    by (rule conjI [OF example_prelude(1) conjI [OF example_prelude(3) conjI [OF example_chunks(4)
          conjI [OF example_chunks(1) conjI [OF example_prelude(11) conjI [OF 1
          conjI [OF example_env(3) 2]]]]]]])
qed

text \<open>
  The claim says that the content is persisted in exactly one persistence call.  In the example
  run, the transport delivers \<open>Hel\<close> and \<open>lo\<close> and is then cancelled: two persistence calls
  follow, the one of the \<open>catch\<close> block and the one of \<open>addNode\<close>, which sends the whole session
  again, and in both the node carries \<open>Hello\<close> and the stop mark.  The claim also says that a
  new input node is then created.  When the persistence call of \<open>addNode\<close> fails, \<open>addNode\<close>
  does not write the store: the session in memory has the nodes it had, the node has no child,
  and the identifier that is selected is not stored.
\<close>

theorem cancel_persists_twice:
  "(\<exists>w' w1 S S'.
       handleSend 5 exampleArgs (exampleEnv helloChunks (Rejected abortError))
         (exampleWorld chainNodes (js ''C'')) = Some w'
     \<and> beginSend exampleArgs (js ''Hi'') (exampleConfig (js ''A'') 1) (exampleSession chainNodes)
          (exampleEnv helloChunks (Rejected abortError)) (exampleWorld chainNodes (js ''C''))
          = (js ''C'', 0, w1)
     \<and> persisted w' = persisted w1 @ [S, S']
     \<and> map_option assistantMessage (nodes S (js ''C''))
          = Some (Some (js ''Hello'' @ [10, 10, 45, 45, 45, 10, 42, 91, 29983, 25104, 24050, 20572, 27490, 93, 42]))
     \<and> map_option assistantMessage (nodes S' (js ''C''))
          = Some (Some (js ''Hello'' @ [10, 10, 45, 45, 45, 10, 42, 91, 29983, 25104, 24050, 20572, 27490, 93, 42])))
   \<and> (\<exists>w'.
       handleSend 5 exampleArgs (offlineEnv helloChunks (Rejected abortError))
         (exampleWorld chainNodes (js ''C'')) = Some w'
     \<and> dom (currentNodes w') = dom chainNodes
     \<and> nodeField children w' (js ''C'') = Some []
     \<and> currentNodes w' (js ''input-'' @ decimal 21) = None
     \<and> selectedNodeId (store w') = Some (js ''input-'' @ decimal 21))"
proof -
  let ?w = "exampleWorld chainNodes (js ''C'')"
  have msg: "trim (arg_input exampleArgs) \<noteq> []"
    by (simp only: example_prelude(5)) (rule example_prelude(6))
  have has: "hasNode ?w (node_id (arg_node exampleArgs))"
    by (simp only: example_prelude(2,3))
  have ne: "node_id (arg_node exampleArgs) \<noteq> []"
    by (simp only: example_prelude(2)) (rule example_prelude(4))
  have content: "contentOf (env_chunks (exampleEnv helloChunks out)) \<noteq> []"
    "contentOf (env_chunks (offlineEnv helloChunks out)) \<noteq> []" for out
    by (simp_all add: example_prelude(9) example_env(1) example_chunks(1) js_def)
  have fresh: "js ''input-'' @ decimal (t_finally (exampleEnv helloChunks out)) \<noteq> node_id (arg_node exampleArgs)"
    "js ''input-'' @ decimal (t_finally (offlineEnv helloChunks out)) \<noteq> node_id (arg_node exampleArgs)" for out
    by (simp_all only: example_prelude(2,12) example_env(4)) (rule example_chunks(6))+
  have notin: "js ''input-'' @ decimal 21 \<notin> dom chainNodes"
    by (simp add: chainNodes_def js_def)
  have ch: "the (Some ([] :: jstring list)) @ [js ''input-'' @ decimal 21] = [js ''input-'' @ decimal 21]"
    by simp
  have "\<exists>w' w1 S S' child. handleSend 5 exampleArgs (exampleEnv helloChunks (Rejected abortError))
           (exampleWorld chainNodes (js ''C'')) = Some w'
       \<and> beginSend exampleArgs (js ''Hi'') (exampleConfig (js ''A'') 1) (exampleSession chainNodes)
            (exampleEnv helloChunks (Rejected abortError)) (exampleWorld chainNodes (js ''C''))
            = (js ''C'', 0, w1)
       \<and> persisted w' = persisted w1 @ [S, S']
       \<and> map_option assistantMessage (nodes S (js ''C''))
            = Some (Some (js ''Hello'' @ [10, 10, 45, 45, 45, 10, 42, 91, 29983, 25104, 24050, 20572, 27490, 93, 42]))
       \<and> dom (nodes S) = dom chainNodes
       \<and> map_option children (nodes S (js ''C'')) = Some []
       \<and> map_option assistantMessage (nodes S' (js ''C''))
            = Some (Some (js ''Hello'' @ [10, 10, 45, 45, 45, 10, 42, 91, 29983, 25104, 24050, 20572, 27490, 93, 42]))
       \<and> dom (nodes S') = insert (js ''input-'' @ decimal 21) (dom chainNodes)
       \<and> nodes S' (js ''input-'' @ decimal 21) = Some child
       \<and> type child = input \<and> parentId child = Some (js ''C'') \<and> children child = []
       \<and> map_option children (nodes S' (js ''C'')) = Some [js ''input-'' @ decimal 21]
       \<and> currentNodes w' = nodes S'
       \<and> nodeField assistantMessage w' (js ''C'')
            = Some (Some (js ''Hello'' @ [10, 10, 45, 45, 45, 10, 42, 91, 29983, 25104, 24050, 20572, 27490, 93, 42]))
       \<and> selectedNodeId (store w') = Some (js ''input-'' @ decimal 21)"
    using handleSend_cancelled [OF example_prelude(1) has ne msg example_prelude(7,8)
        example_path example_prelude(10) example_chunks(4) content(1) fresh(1)]
    by (simp only: example_prelude(2,5,9,11,12,13) example_chunks(1) example_children ch
          currentNodes_example if_True stopMark_def)
  then obtain w' w1 S S' child where a: "handleSend 5 exampleArgs (exampleEnv helloChunks (Rejected abortError))
           (exampleWorld chainNodes (js ''C'')) = Some w'
       \<and> beginSend exampleArgs (js ''Hi'') (exampleConfig (js ''A'') 1) (exampleSession chainNodes)
            (exampleEnv helloChunks (Rejected abortError)) (exampleWorld chainNodes (js ''C''))
            = (js ''C'', 0, w1)
       \<and> persisted w' = persisted w1 @ [S, S']
       \<and> map_option assistantMessage (nodes S (js ''C''))
            = Some (Some (js ''Hello'' @ [10, 10, 45, 45, 45, 10, 42, 91, 29983, 25104, 24050, 20572, 27490, 93, 42]))
       \<and> dom (nodes S) = dom chainNodes
       \<and> map_option children (nodes S (js ''C'')) = Some []
       \<and> map_option assistantMessage (nodes S' (js ''C''))
            = Some (Some (js ''Hello'' @ [10, 10, 45, 45, 45, 10, 42, 91, 29983, 25104, 24050, 20572, 27490, 93, 42]))
       \<and> dom (nodes S') = insert (js ''input-'' @ decimal 21) (dom chainNodes)
       \<and> nodes S' (js ''input-'' @ decimal 21) = Some child
       \<and> type child = input \<and> parentId child = Some (js ''C'') \<and> children child = []
       \<and> map_option children (nodes S' (js ''C'')) = Some [js ''input-'' @ decimal 21]
       \<and> currentNodes w' = nodes S'
       \<and> nodeField assistantMessage w' (js ''C'')
            = Some (Some (js ''Hello'' @ [10, 10, 45, 45, 45, 10, 42, 91, 29983, 25104, 24050, 20572, 27490, 93, 42]))
       \<and> selectedNodeId (store w') = Some (js ''input-'' @ decimal 21)"
    by (elim exE) (rule that)
  have 1: "\<exists>w' w1 S S'.
       handleSend 5 exampleArgs (exampleEnv helloChunks (Rejected abortError)) ?w = Some w'
     \<and> beginSend exampleArgs (js ''Hi'') (exampleConfig (js ''A'') 1) (exampleSession chainNodes)
          (exampleEnv helloChunks (Rejected abortError)) ?w = (js ''C'', 0, w1)
     \<and> persisted w' = persisted w1 @ [S, S']
     \<and> map_option assistantMessage (nodes S (js ''C''))
          = Some (Some (js ''Hello'' @ [10, 10, 45, 45, 45, 10, 42, 91, 29983, 25104, 24050, 20572, 27490, 93, 42]))
     \<and> map_option assistantMessage (nodes S' (js ''C''))
          = Some (Some (js ''Hello'' @ [10, 10, 45, 45, 45, 10, 42, 91, 29983, 25104, 24050, 20572, 27490, 93, 42]))"
  proof (intro exI conjI)
    show "handleSend 5 exampleArgs (exampleEnv helloChunks (Rejected abortError)) ?w = Some w'"
      using a by (elim conjE)
    show "beginSend exampleArgs (js ''Hi'') (exampleConfig (js ''A'') 1) (exampleSession chainNodes)
          (exampleEnv helloChunks (Rejected abortError)) ?w = (js ''C'', 0, w1)"
      using a by (elim conjE)
    show "persisted w' = persisted w1 @ [S, S']"
      using a by (elim conjE)
    show "map_option assistantMessage (nodes S (js ''C''))
          = Some (Some (js ''Hello'' @ [10, 10, 45, 45, 45, 10, 42, 91, 29983, 25104, 24050, 20572, 27490, 93, 42]))"
      using a by (elim conjE)
    show "map_option assistantMessage (nodes S' (js ''C''))
          = Some (Some (js ''Hello'' @ [10, 10, 45, 45, 45, 10, 42, 91, 29983, 25104, 24050, 20572, 27490, 93, 42]))"
      using a by (elim conjE)
  qed
  have "\<exists>w' w1 S S' child. handleSend 5 exampleArgs (offlineEnv helloChunks (Rejected abortError))
           (exampleWorld chainNodes (js ''C'')) = Some w'
       \<and> beginSend exampleArgs (js ''Hi'') (exampleConfig (js ''A'') 1) (exampleSession chainNodes)
            (offlineEnv helloChunks (Rejected abortError)) (exampleWorld chainNodes (js ''C''))
            = (js ''C'', 0, w1)
       \<and> persisted w' = persisted w1 @ [S, S']
       \<and> map_option assistantMessage (nodes S (js ''C''))
            = Some (Some (js ''Hello'' @ [10, 10, 45, 45, 45, 10, 42, 91, 29983, 25104, 24050, 20572, 27490, 93, 42]))
       \<and> dom (nodes S) = dom chainNodes
       \<and> map_option children (nodes S (js ''C'')) = Some []
       \<and> map_option assistantMessage (nodes S' (js ''C''))
            = Some (Some (js ''Hello'' @ [10, 10, 45, 45, 45, 10, 42, 91, 29983, 25104, 24050, 20572, 27490, 93, 42]))
       \<and> dom (nodes S') = insert (js ''input-'' @ decimal 21) (dom chainNodes)
       \<and> nodes S' (js ''input-'' @ decimal 21) = Some child
       \<and> type child = input \<and> parentId child = Some (js ''C'') \<and> children child = []
       \<and> map_option children (nodes S' (js ''C'')) = Some [js ''input-'' @ decimal 21]
       \<and> currentNodes w' = nodes S
       \<and> nodeField assistantMessage w' (js ''C'')
            = Some (Some (js ''Hello'' @ [10, 10, 45, 45, 45, 10, 42, 91, 29983, 25104, 24050, 20572, 27490, 93, 42]))
       \<and> selectedNodeId (store w') = Some (js ''input-'' @ decimal 21)"
    using handleSend_cancelled [OF example_prelude(1) has ne msg example_prelude(7,8)
        example_path example_env(2) example_chunks(4) content(2) fresh(2)]
    by (simp only: example_prelude(2,5,13) example_env example_chunks(1) example_children ch
          currentNodes_example if_False stopMark_def)
  then obtain w' w1 S S' child where b: "handleSend 5 exampleArgs (offlineEnv helloChunks (Rejected abortError))
           (exampleWorld chainNodes (js ''C'')) = Some w'
       \<and> beginSend exampleArgs (js ''Hi'') (exampleConfig (js ''A'') 1) (exampleSession chainNodes)
            (offlineEnv helloChunks (Rejected abortError)) (exampleWorld chainNodes (js ''C''))
            = (js ''C'', 0, w1)
       \<and> persisted w' = persisted w1 @ [S, S']
       \<and> map_option assistantMessage (nodes S (js ''C''))
            = Some (Some (js ''Hello'' @ [10, 10, 45, 45, 45, 10, 42, 91, 29983, 25104, 24050, 20572, 27490, 93, 42]))
       \<and> dom (nodes S) = dom chainNodes
       \<and> map_option children (nodes S (js ''C'')) = Some []
       \<and> map_option assistantMessage (nodes S' (js ''C''))
            = Some (Some (js ''Hello'' @ [10, 10, 45, 45, 45, 10, 42, 91, 29983, 25104, 24050, 20572, 27490, 93, 42]))
       \<and> dom (nodes S') = insert (js ''input-'' @ decimal 21) (dom chainNodes)
       \<and> nodes S' (js ''input-'' @ decimal 21) = Some child
       \<and> type child = input \<and> parentId child = Some (js ''C'') \<and> children child = []
       \<and> map_option children (nodes S' (js ''C'')) = Some [js ''input-'' @ decimal 21]
       \<and> currentNodes w' = nodes S
       \<and> nodeField assistantMessage w' (js ''C'')
            = Some (Some (js ''Hello'' @ [10, 10, 45, 45, 45, 10, 42, 91, 29983, 25104, 24050, 20572, 27490, 93, 42]))
       \<and> selectedNodeId (store w') = Some (js ''input-'' @ decimal 21)"
    by (elim exE) (rule that)
  from b have r: "handleSend 5 exampleArgs (offlineEnv helloChunks (Rejected abortError)) ?w = Some w'"
    "dom (nodes S) = dom chainNodes"
    "map_option children (nodes S (js ''C'')) = Some []"
    "currentNodes w' = nodes S"
    "selectedNodeId (store w') = Some (js ''input-'' @ decimal 21)"
    by blast+
  have 2: "\<exists>w'.
       handleSend 5 exampleArgs (offlineEnv helloChunks (Rejected abortError)) ?w = Some w'
     \<and> dom (currentNodes w') = dom chainNodes
     \<and> nodeField children w' (js ''C'') = Some []
     \<and> currentNodes w' (js ''input-'' @ decimal 21) = None
     \<and> selectedNodeId (store w') = Some (js ''input-'' @ decimal 21)"
  proof (intro exI conjI)
    show "handleSend 5 exampleArgs (offlineEnv helloChunks (Rejected abortError)) ?w = Some w'"
      by (rule r(1))
    show "dom (currentNodes w') = dom chainNodes" using r(2,4) by simp
    show "nodeField children w' (js ''C'') = Some []" using r(3,4) by (simp add: nodeField_def)
    show "currentNodes w' (js ''input-'' @ decimal 21) = None"
      using notin r(2,4) by (metis domIff)
    show "selectedNodeId (store w') = Some (js ''input-'' @ decimal 21)" by (rule r(5))
  qed
  from 1 2 show ?thesis by (rule conjI)
qed

theorem failure_outcome_witness:
  "type (arg_node exampleArgs) = input
   \<and> hasNode (exampleWorld chainNodes (js ''C'')) (js ''C'')
   \<and> \<not> isAbort networkError
   \<and> (\<exists>w' w1.
         handleSend 5 exampleArgs (exampleEnv helloChunks (Rejected networkError))
           (exampleWorld chainNodes (js ''C'')) = Some w'
       \<and> beginSend exampleArgs (js ''Hi'') (exampleConfig (js ''A'') 1) (exampleSession chainNodes)
            (exampleEnv helloChunks (Rejected networkError)) (exampleWorld chainNodes (js ''C''))
            = (js ''C'', 0, w1)
       \<and> alerts w' = [sendFailed @ js ''Failed to fetch'']
       \<and> dom (currentNodes w') = dom chainNodes
       \<and> nodeField children w' (js ''C'') = Some []
       \<and> persisted w' = persisted w1)"
proof -
  let ?w = "exampleWorld chainNodes (js ''C'')"
  let ?env = "exampleEnv helloChunks (Rejected networkError)"
  have msg: "trim (arg_input exampleArgs) \<noteq> []"
    by (simp only: example_prelude(5)) (rule example_prelude(6))
  have has: "hasNode ?w (node_id (arg_node exampleArgs))"
    by (simp only: example_prelude(2,3))
  have "children (the (chainNodes (js ''C''))) = []"
    by (simp add: chainNodes_def exampleNode_def js_def)
  then have ch: "nodeField children ?w (js ''C'') = Some []"
    by (simp add: nodeField_def chainNodes_def exampleNode_def js_def)
  have al: "alerts ?w = []" by (simp add: exampleWorld_def)
  have e: "(case networkError of ErrorObject name msg \<Rightarrow> msg | NotAnError \<Rightarrow> unknownError)
             = js ''Failed to fetch''"
    by (simp add: networkError_def)
  from failure_outcome [OF example_prelude(1) has msg example_prelude(7,8)
        example_path example_prelude(10) example_chunks(5)]
  obtain w' w1 where r: "handleSend 5 exampleArgs ?env ?w = Some w'"
    "beginSend exampleArgs (trim (arg_input exampleArgs)) (exampleConfig (js ''A'') 1)
       (exampleSession chainNodes) ?env ?w
       = (node_id (arg_node exampleArgs), pos_y (position (arg_node exampleArgs)), w1)"
    "alerts w' = alerts ?w
          @ [sendFailed @ (case networkError of ErrorObject name msg \<Rightarrow> msg | NotAnError \<Rightarrow> unknownError)]"
    "dom (currentNodes w') = dom (currentNodes ?w)"
    "nodeField children w' (node_id (arg_node exampleArgs))
       = nodeField children ?w (node_id (arg_node exampleArgs))"
    "persisted w' = persisted w1"
    by blast
  have "handleSend 5 exampleArgs ?env ?w = Some w'
       \<and> beginSend exampleArgs (js ''Hi'') (exampleConfig (js ''A'') 1) (exampleSession chainNodes)
            ?env ?w = (js ''C'', 0, w1)
       \<and> alerts w' = [sendFailed @ js ''Failed to fetch'']
       \<and> dom (currentNodes w') = dom chainNodes
       \<and> nodeField children w' (js ''C'') = Some []
       \<and> persisted w' = persisted w1"
    using r by (simp add: example_prelude(2,5,13) ch al e)
  then show ?thesis
    using example_prelude(1,3) example_chunks(5) by blast
qed

text \<open>
  The claim says that the content merged up to the failure is discarded from the node's state.
  In the example run, the transport delivers \<open>Hel\<close> and \<open>lo\<close> and then fails with a network
  error: the node in memory still carries \<open>Hello\<close> when \<open>handleSend\<close> has returned.
\<close>

theorem failure_keeps_partial_content:
  "\<exists>w'. handleSend 5 exampleArgs (exampleEnv helloChunks (Rejected networkError))
           (exampleWorld chainNodes (js ''C'')) = Some w'
     \<and> nodeField assistantMessage w' (js ''C'') = Some (Some (js ''Hello''))"
proof -
  let ?w = "exampleWorld chainNodes (js ''C'')"
  let ?env = "exampleEnv helloChunks (Rejected networkError)"
  have msg: "trim (arg_input exampleArgs) \<noteq> []"
    by (simp only: example_prelude(5)) (rule example_prelude(6))
  have has: "hasNode ?w (node_id (arg_node exampleArgs))"
    by (simp only: example_prelude(2,3))
  from handleSend_input [OF example_prelude(1) has msg example_prelude(7,8) example_path, of ?env]
  obtain w3 where hs: "handleSend 5 exampleArgs ?env ?w
        = Some (finishSend (js ''C'') (arg_node exampleArgs) 0 (js ''Hi'') ?env
                  (stream (js ''C'') helloChunks w3))"
    and w3: "hasNode w3 (js ''C'')"
    unfolding example_prelude(2,5,9,13) by blast
  let ?s = "stream (js ''C'') helloChunks w3"
  have ex: "\<exists>c \<in> set helloChunks. fst c \<noteq> thinking" by (simp add: helloChunks_def)
  have am: "nodeField assistantMessage (world ?s) (js ''C'') = Some (Some (js ''Hello''))"
    using stream_facts(8) [OF w3, of helloChunks] ex by (simp add: example_chunks(1))
  have fin: "finishSend (js ''C'') (arg_node exampleArgs) 0 (js ''Hi'') ?env ?s
      = (world ?s)\<lparr>alerts := alerts (world ?s)
           @ [sendFailed @ (case networkError of ErrorObject name msg \<Rightarrow> msg | NotAnError \<Rightarrow> unknownError)]\<rparr>"
    by (rule finishSend_failed [OF example_prelude(10) example_chunks(5)])
  have "nodeField assistantMessage
          (finishSend (js ''C'') (arg_node exampleArgs) 0 (js ''Hi'') ?env ?s) (js ''C'')
        = Some (Some (js ''Hello''))"
    using am by (simp add: fin nodeField_def currentNodes_def)
  with hs show ?thesis by blast
qed

section \<open>Layout\<close>

lemma foldl_plus_sum_list: "foldl (\<lambda>s c. s + f c) a cs = (a::rat) + sum_list (map f cs)"
  by (induction cs arbitrary: a) simp_all

lemma calculateSubtreeWidth_eq:
  "calculateSubtreeWidth t hs =
     (if lchildren t = [] then lwidth t
      else max (lwidth t) (sum_list (map (\<lambda>c. calculateSubtreeWidth c hs) (lchildren t))
                             + (of_nat (length (lchildren t)) - 1) * hs))"
  by (cases t) (simp add: foldl_plus_sum_list Let_def)

lemma layoutChildren_length [simp]:
  "length (layoutChildren cs ws i cx cy d hs vs) = length cs"
  by (induction cs arbitrary: i cx) (simp_all add: Let_def)

lemma layoutChildren_nth:
  assumes "\<forall>k < length cs. ws ! (i + k) = calculateSubtreeWidth (cs ! k) hs" and "k < length cs"
  shows "layoutChildren cs ws i cx cy d hs vs ! k =
           layoutTree (cs ! k) (cx + offset hs cs k + calculateSubtreeWidth (cs ! k) hs / 2) cy d hs vs"
  using assms
proof (induction cs arbitrary: i cx k)
  case Nil
  then show ?case by simp
next
  case (Cons c cs)
  have w0: "ws ! i = calculateSubtreeWidth c hs" using Cons.prems(1) by fastforce
  show ?case
  proof (cases k)
    case 0
    then show ?thesis using w0 by (simp add: Let_def offset_def)
  next
    case (Suc k')
    have "\<forall>k < length cs. ws ! (Suc i + k) = calculateSubtreeWidth (cs ! k) hs"
      using Cons.prems(1) by fastforce
    then have "layoutChildren cs ws (Suc i) (cx + calculateSubtreeWidth c hs + hs) cy d hs vs ! k' =
           layoutTree (cs ! k') ((cx + calculateSubtreeWidth c hs + hs) + offset hs cs k' + calculateSubtreeWidth (cs ! k') hs / 2) cy d hs vs"
      using Cons.IH [of "Suc i" k' "cx + calculateSubtreeWidth c hs + hs"] Cons.prems(2) Suc by simp
    then show ?thesis using Suc w0 by (simp add: Let_def offset_def algebra_simps)
  qed
qed

lemma layoutTree_children:
  assumes "k < length (lchildren t)"
  shows "lchildren (layoutTree t x y d hs vs) ! k =
           layoutTree (lchildren t ! k)
             (x - totalWidth hs (lchildren t) / 2 + offset hs (lchildren t) k
                + calculateSubtreeWidth (lchildren t ! k) hs / 2)
             (y + lheight t + vs) (d + 1) hs vs"
proof (cases t)
  case (LayoutNode i n cs d0 x0 y0 w h)
  then have k: "k < length cs" using assms by simp
  then have ne: "cs \<noteq> []" by auto
  have "\<forall>j < length cs. map (\<lambda>c. calculateSubtreeWidth c hs) cs ! (0 + j) = calculateSubtreeWidth (cs ! j) hs"
    by simp
  from layoutChildren_nth [OF this k]
  show ?thesis using LayoutNode ne by (simp add: Let_def totalWidth_def foldl_plus_sum_list)
qed

lemma layoutTree_fields [simp]:
  "lx (layoutTree t x y d hs vs) = x"
  "ly (layoutTree t x y d hs vs) = y"
  "ldepth (layoutTree t x y d hs vs) = d"
  "lid (layoutTree t x y d hs vs) = lid t"
  "lnode (layoutTree t x y d hs vs) = lnode t"
  "lwidth (layoutTree t x y d hs vs) = lwidth t"
  "lheight (layoutTree t x y d hs vs) = lheight t"
  by (cases t; simp add: Let_def)+

lemma layoutTree_length_children [simp]:
  "length (lchildren (layoutTree t x y d hs vs)) = length (lchildren t)"
proof (cases t)
  case (LayoutNode i n cs d0 x0 y0 w h)
  then show ?thesis by (cases "cs = []") (simp_all add: Let_def)
qed

declare layoutTree.simps [simp del] calculateSubtreeWidth.simps [simp del]

lemma width_layoutTree [simp]:
  "calculateSubtreeWidth (layoutTree t x y d hs vs) hs' = calculateSubtreeWidth t hs'"
proof (induction t arbitrary: x y d)
  case (LayoutNode i n cs d0 x0 y0 w h)
  let ?T = "layoutTree (LayoutNode i n cs d0 x0 y0 w h) x y d hs vs"
  have len: "length (lchildren ?T) = length cs" by simp
  have "map (\<lambda>c. calculateSubtreeWidth c hs') (lchildren ?T) = map (\<lambda>c. calculateSubtreeWidth c hs') cs"
  proof (rule nth_equalityI)
    show "length (map (\<lambda>c. calculateSubtreeWidth c hs') (lchildren ?T)) = length (map (\<lambda>c. calculateSubtreeWidth c hs') cs)"
      using len by simp
  next
    fix k assume "k < length (map (\<lambda>c. calculateSubtreeWidth c hs') (lchildren ?T))"
    then have k: "k < length cs" using len by simp
    then have "cs ! k \<in> set cs" by simp
    with k show "map (\<lambda>c. calculateSubtreeWidth c hs') (lchildren ?T) ! k = map (\<lambda>c. calculateSubtreeWidth c hs') cs ! k"
      using layoutTree_children [of k "LayoutNode i n cs d0 x0 y0 w h" x y d hs vs] LayoutNode.IH len
      by simp
  qed
  moreover have "(lchildren ?T = []) = (cs = [])"
    using len by (metis length_0_conv)
  ultimately show ?case
    using len by (simp add: calculateSubtreeWidth_eq [of ?T] calculateSubtreeWidth_eq [of "LayoutNode i n cs d0 x0 y0 w h"])
qed

lemma subtrees_eq: "subtrees t = t # concat (map subtrees (lchildren t))"
  by (cases t) simp

lemma set_subtrees: "set (subtrees t) = insert t (\<Union>c \<in> set (lchildren t). set (subtrees c))"
  by (cases t) auto

lemma subtrees_self [simp]: "t \<in> set (subtrees t)"
  by (subst set_subtrees) simp

lemma subtrees_child_subset: "c \<in> set (lchildren t) \<Longrightarrow> set (subtrees c) \<subseteq> set (subtrees t)"
  by (auto simp: set_subtrees [of t])

lemma in_subtrees_iff:
  "m \<in> set (subtrees t) \<longleftrightarrow> m = t \<or> (\<exists>k < length (lchildren t). m \<in> set (subtrees (lchildren t ! k)))"
proof -
  have "(\<exists>c \<in> set (lchildren t). m \<in> set (subtrees c))
          \<longleftrightarrow> (\<exists>k < length (lchildren t). m \<in> set (subtrees (lchildren t ! k)))"
    by (metis in_set_conv_nth)
  then show ?thesis by (simp add: set_subtrees [of t])
qed

declare subtrees.simps [simp del]

lemma offset_Suc:
  "k < length cs \<Longrightarrow> offset hs cs (Suc k) = offset hs cs k + calculateSubtreeWidth (cs ! k) hs + hs"
  by (simp add: offset_def take_Suc_conv_app_nth)

lemma offset_0 [simp]: "offset hs cs 0 = 0"
  by (simp add: offset_def)

lemma offset_length: "offset hs cs (length cs) = totalWidth hs cs + hs"
  by (simp add: offset_def totalWidth_def sum_list_addf sum_list_triv algebra_simps)

lemma offset_mono:
  assumes nn: "\<forall>c \<in> set cs. 0 \<le> calculateSubtreeWidth c hs + hs" and "k \<le> k'" "k' \<le> length cs"
  shows "offset hs cs k \<le> offset hs cs k'"
proof -
  have "take k' cs = take k cs @ take (k' - k) (drop k cs)"
    using assms(2) by (metis le_add_diff_inverse take_add)
  then have "offset hs cs k' = offset hs cs k
      + sum_list (map (\<lambda>c. calculateSubtreeWidth c hs + hs) (take (k' - k) (drop k cs)))"
    by (simp add: offset_def)
  moreover have "0 \<le> sum_list (map (\<lambda>c. calculateSubtreeWidth c hs + hs) (take (k' - k) (drop k cs)))"
  proof (rule sum_list_nonneg)
    fix v assume "v \<in> set (map (\<lambda>c. calculateSubtreeWidth c hs + hs) (take (k' - k) (drop k cs)))"
    then obtain c where "c \<in> set (take (k' - k) (drop k cs))" "v = calculateSubtreeWidth c hs + hs"
      by auto
    moreover then have "c \<in> set cs" by (meson in_set_dropD in_set_takeD)
    ultimately show "0 \<le> v" using nn by simp
  qed
  ultimately show ?thesis by simp
qed

lemma width_ge_own: "lwidth t \<le> calculateSubtreeWidth t hs"
  by (simp add: calculateSubtreeWidth_eq)

lemma width_ge_total: "lchildren t \<noteq> [] \<Longrightarrow> totalWidth hs (lchildren t) \<le> calculateSubtreeWidth t hs"
  by (simp add: calculateSubtreeWidth_eq [of t] totalWidth_def)

lemma child_extent:
  assumes "k < length (lchildren t)"
  shows "extentLeft hs (lchildren (layoutTree t x y d hs vs) ! k)
           = x - totalWidth hs (lchildren t) / 2 + offset hs (lchildren t) k"
    and "extentRight hs (lchildren (layoutTree t x y d hs vs) ! k)
           = x - totalWidth hs (lchildren t) / 2 + offset hs (lchildren t) k
               + calculateSubtreeWidth (lchildren t ! k) hs"
  using assms by (simp_all add: extentLeft_def extentRight_def layoutTree_children)

lemma subtrees_laid_out:
  "m \<in> set (subtrees (layoutTree t x y d hs vs))
     \<Longrightarrow> \<exists>t' x' y' d'. t' \<in> set (subtrees t) \<and> m = layoutTree t' x' y' d' hs vs"
proof (induction t arbitrary: x y d)
  case (LayoutNode i n cs d0 x0 y0 w h)
  let ?t = "LayoutNode i n cs d0 x0 y0 w h"
  from LayoutNode.prems consider "m = layoutTree ?t x y d hs vs"
    | k where "k < length cs" "m \<in> set (subtrees (lchildren (layoutTree ?t x y d hs vs) ! k))"
    by (subst (asm) in_subtrees_iff) auto
  then show ?case
  proof cases
    case 1
    then show ?thesis using subtrees_self by blast
  next
    case 2
    then have "cs ! k \<in> set cs" by simp
    have "m \<in> set (subtrees (layoutTree (cs ! k)
              (x - totalWidth hs cs / 2 + offset hs cs k + calculateSubtreeWidth (cs ! k) hs / 2)
              (y + h + vs) (d + 1) hs vs))"
      using 2 layoutTree_children [of k ?t x y d hs vs] by simp
    from LayoutNode.IH [OF \<open>cs ! k \<in> set cs\<close> this]
    obtain t' x' y' d' where "t' \<in> set (subtrees (cs ! k))" "m = layoutTree t' x' y' d' hs vs"
      by blast
    moreover have "t' \<in> set (subtrees ?t)"
      using \<open>t' \<in> set (subtrees (cs ! k))\<close> \<open>cs ! k \<in> set cs\<close> subtrees_child_subset [of "cs ! k" ?t]
      by auto
    ultimately show ?thesis by blast
  qed
qed

lemma widths_nonneg:
  assumes "0 \<le> lwidth t"
  shows "0 \<le> calculateSubtreeWidth t hs"
  using assms width_ge_own [of t hs] by linarith

lemma extent_contains:
  assumes hs: "0 \<le> hs" and nn: "\<forall>m \<in> set (subtrees t). 0 \<le> lwidth m"
    and m: "m \<in> set (subtrees (layoutTree t x y d hs vs))"
  shows "x - calculateSubtreeWidth t hs / 2 \<le> lx m - lwidth m / 2
       \<and> lx m + lwidth m / 2 \<le> x + calculateSubtreeWidth t hs / 2"
  using nn m
proof (induction t arbitrary: x y d)
  case (LayoutNode i n cs d0 x0 y0 w h)
  let ?t = "LayoutNode i n cs d0 x0 y0 w h"
  let ?T = "layoutTree ?t x y d hs vs"
  from LayoutNode.prems(2) consider "m = ?T"
    | k where "k < length cs" "m \<in> set (subtrees (lchildren ?T ! k))"
    by (subst (asm) in_subtrees_iff) auto
  then show ?case
  proof cases
    case 1
    then show ?thesis using width_ge_own [of ?t hs] by simp
  next
    case 2
    let ?c = "cs ! k"
    have cin: "?c \<in> set cs" using 2(1) by simp
    have ne: "lchildren ?t \<noteq> []" using 2(1) by auto
    have sub: "\<forall>m' \<in> set (subtrees ?c). 0 \<le> lwidth m'"
      using LayoutNode.prems(1) cin subtrees_child_subset [of ?c ?t] by auto
    have wnn: "\<forall>c \<in> set cs. 0 \<le> calculateSubtreeWidth c hs + hs"
    proof
      fix c assume c: "c \<in> set cs"
      then have "c \<in> set (subtrees ?t)" using subtrees_child_subset [of c ?t] by auto
      then have "0 \<le> lwidth c" using LayoutNode.prems(1) by blast
      then show "0 \<le> calculateSubtreeWidth c hs + hs" using widths_nonneg [of c hs] hs by linarith
    qed
    let ?cx = "x - totalWidth hs cs / 2 + offset hs cs k + calculateSubtreeWidth ?c hs / 2"
    have ch: "lchildren ?T ! k = layoutTree ?c ?cx (y + h + vs) (d + 1) hs vs"
      using layoutTree_children [of k ?t x y d hs vs] 2(1) by simp
    have "m \<in> set (subtrees (layoutTree ?c ?cx (y + h + vs) (d + 1) hs vs))"
      using 2(2) ch by simp
    from LayoutNode.IH [OF cin sub this]
    have inner: "?cx - calculateSubtreeWidth ?c hs / 2 \<le> lx m - lwidth m / 2"
      "lx m + lwidth m / 2 \<le> ?cx + calculateSubtreeWidth ?c hs / 2"
      by blast+
    have o1: "0 \<le> offset hs cs k"
      using offset_mono [OF wnn, of 0 k] 2(1) by simp
    have "offset hs cs (Suc k) \<le> offset hs cs (length cs)"
      using offset_mono [OF wnn, of "Suc k" "length cs"] 2(1) by simp
    then have o2: "offset hs cs k + calculateSubtreeWidth ?c hs \<le> totalWidth hs cs"
      using offset_Suc [of k cs hs] 2(1) offset_length [of hs cs] by simp
    have tw: "totalWidth hs cs \<le> calculateSubtreeWidth ?t hs"
      using width_ge_total [of ?t hs] ne by simp
    show ?thesis using inner o1 o2 tw by linarith
  qed
qed

lemma siblings_apart:
  assumes hs: "0 \<le> hs" and nn: "\<forall>c \<in> set (lchildren t). 0 \<le> lwidth c"
    and ij: "i < j" "j < length (lchildren t)"
  shows "extentRight hs (lchildren (layoutTree t x y d hs vs) ! i) + hs
           \<le> extentLeft hs (lchildren (layoutTree t x y d hs vs) ! j)"
proof -
  have wnn: "\<forall>c \<in> set (lchildren t). 0 \<le> calculateSubtreeWidth c hs + hs"
    using nn hs widths_nonneg by (metis add_nonneg_nonneg)
  have "offset hs (lchildren t) (Suc i) \<le> offset hs (lchildren t) j"
    using offset_mono [OF wnn, of "Suc i" j] ij by simp
  moreover have "offset hs (lchildren t) (Suc i)
      = offset hs (lchildren t) i + calculateSubtreeWidth (lchildren t ! i) hs + hs"
    using ij offset_Suc [of i "lchildren t" hs] by simp
  moreover have "extentRight hs (lchildren (layoutTree t x y d hs vs) ! i)
      = x - totalWidth hs (lchildren t) / 2 + offset hs (lchildren t) i
               + calculateSubtreeWidth (lchildren t ! i) hs"
    using ij by (simp add: child_extent)
  moreover have "extentLeft hs (lchildren (layoutTree t x y d hs vs) ! j)
      = x - totalWidth hs (lchildren t) / 2 + offset hs (lchildren t) j"
    using ij by (simp add: child_extent)
  ultimately show ?thesis by linarith
qed

lemma parent_centred:
  assumes "lchildren t \<noteq> []"
  shows "lx (layoutTree t x y d hs vs)
           = (extentLeft hs (hd (lchildren (layoutTree t x y d hs vs)))
              + extentRight hs (last (lchildren (layoutTree t x y d hs vs)))) / 2"
proof -
  let ?cs = "lchildren t" and ?T = "layoutTree t x y d hs vs"
  have len: "0 < length ?cs" using assms by simp
  have ne: "lchildren ?T \<noteq> []" using len by (metis layoutTree_length_children length_greater_0_conv)
  have h: "hd (lchildren ?T) = lchildren ?T ! 0" using ne by (simp add: hd_conv_nth)
  have l: "last (lchildren ?T) = lchildren ?T ! (length ?cs - 1)" using ne by (simp add: last_conv_nth)
  have "offset hs ?cs (Suc (length ?cs - 1)) = totalWidth hs ?cs + hs"
    using len offset_length [of hs ?cs] by simp
  then have "offset hs ?cs (length ?cs - 1) + calculateSubtreeWidth (?cs ! (length ?cs - 1)) hs
               = totalWidth hs ?cs"
    using offset_Suc [of "length ?cs - 1" ?cs hs] len by simp
  then have R: "extentRight hs (last (lchildren ?T)) = x + totalWidth hs ?cs / 2"
    using len by (simp add: l child_extent)
  have L: "extentLeft hs (hd (lchildren ?T)) = x - totalWidth hs ?cs / 2"
    using len by (simp add: h child_extent)
  show ?thesis by (simp add: L R)
qed

lemma subtrees_trans:
  "t' \<in> set (subtrees t) \<Longrightarrow> set (subtrees t') \<subseteq> set (subtrees t)"
proof (induction t)
  case (LayoutNode i n cs d0 x0 y0 w h)
  let ?t = "LayoutNode i n cs d0 x0 y0 w h"
  from LayoutNode.prems consider "t' = ?t" | c where "c \<in> set cs" "t' \<in> set (subtrees c)"
    by (subst (asm) set_subtrees) auto
  then show ?case
  proof cases
    case 1
    then show ?thesis by simp
  next
    case 2
    then have "set (subtrees t') \<subseteq> set (subtrees c)" using LayoutNode.IH by blast
    then show ?thesis using subtrees_child_subset [of c ?t] 2(1) by auto
  qed
qed

lemma map_concat_nth_cong:
  assumes "length xs = length ys" "\<And>k. k < length xs \<Longrightarrow> f (xs ! k) = g (ys ! k)"
  shows "concat (map f xs) = concat (map g ys)"
proof -
  have "map f xs = map g ys"
    using assms by (simp add: list_eq_iff_nth_eq)
  then show ?thesis by simp
qed

lemma treeIds_layoutTree [simp]: "treeIds (layoutTree t x y d hs vs) = treeIds t"
proof (induction t arbitrary: x y d)
  case (LayoutNode i n cs d0 x0 y0 w h)
  let ?t = "LayoutNode i n cs d0 x0 y0 w h"
  let ?T = "layoutTree ?t x y d hs vs"
  have "concat (map (\<lambda>c. map lid (subtrees c)) (lchildren ?T)) = concat (map (\<lambda>c. map lid (subtrees c)) cs)"
  proof (rule map_concat_nth_cong)
    show "length (lchildren ?T) = length cs" by simp
  next
    fix k assume "k < length (lchildren ?T)"
    then have k: "k < length cs" by simp
    then have "cs ! k \<in> set cs" by simp
    from LayoutNode.IH [OF this] k layoutTree_children [of k ?t x y d hs vs]
    show "map lid (subtrees (lchildren ?T ! k)) = map lid (subtrees (cs ! k))"
      by (simp add: treeIds_def)
  qed
  then show ?case
    by (simp add: treeIds_def subtrees_eq [of ?T] subtrees_eq [of ?t] map_concat comp_def)
qed

lemma foldl_concat_map: "foldl f a (concat (map g xs)) = foldl (\<lambda>a x. foldl f a (g x)) a xs"
  by (induction xs arbitrary: a) simp_all

lemma collectPositions_foldl: "collectPositions t ps = foldl place ps (subtrees t)"
proof (induction t arbitrary: ps)
  case (LayoutNode i n cs d0 x0 y0 w h)
  let ?t = "LayoutNode i n cs d0 x0 y0 w h"
  have "foldl (\<lambda>ps child. collectPositions child ps) a cs
          = foldl (\<lambda>ps child. foldl place ps (subtrees child)) a cs" for a
    using LayoutNode.IH by (intro foldl_cong) auto
  moreover have "ps(i \<mapsto> \<lparr>pos_x = x0, pos_y = y0\<rparr>) = place ps ?t"
    by (simp add: place_def)
  ultimately have "collectPositions ?t ps
          = foldl (\<lambda>ps child. foldl place ps (subtrees child)) (place ps ?t) cs"
    by simp
  also have "\<dots> = foldl place ps (subtrees ?t)"
    by (simp add: subtrees_eq [of ?t] foldl_concat_map)
  finally show ?case .
qed

lemma foldl_place_other:
  "k \<notin> lid ` set ms \<Longrightarrow> foldl place ps ms k = ps k"
  by (induction ms arbitrary: ps) (auto simp: place_def)

lemma foldl_place_lookup:
  assumes "distinct (map lid ms)" "m \<in> set ms"
  shows "foldl place ps ms (lid m) = Some \<lparr>pos_x = lx m, pos_y = ly m\<rparr>"
  using assms
proof (induction ms arbitrary: ps)
  case Nil
  then show ?case by simp
next
  case (Cons a ms)
  show ?case
  proof (cases "m = a")
    case True
    then have "lid m \<notin> lid ` set ms" using Cons.prems(1) by auto
    then have "foldl place (place ps a) ms (lid m) = place ps a (lid m)"
      by (rule foldl_place_other)
    also have "\<dots> = Some \<lparr>pos_x = lx m, pos_y = ly m\<rparr>"
      using True by (simp add: place_def)
    finally show ?thesis by simp
  next
    case False
    then show ?thesis using Cons by simp
  qed
qed

lemma collectPositions_lookup:
  assumes "distinct (treeIds t)" "m \<in> set (subtrees t)"
  shows "collectPositions t ps (lid m) = Some \<lparr>pos_x = lx m, pos_y = ly m\<rparr>"
  using assms by (simp add: collectPositions_foldl treeIds_def foldl_place_lookup)

lemma mapResult_Inr:
  "mapResult f xs = Inr ys \<Longrightarrow> list_all2 (\<lambda>a b. f a = Inr b) xs ys"
  by (induction xs arbitrary: ys) (auto split: sum.splits)

lemma buildTree_Suc_Inr:
  assumes "buildTree (Suc d) ns rootId = Inr t"
  shows "\<exists>node. ns rootId = Some node \<and> lid t = node_id node \<and> lnode t = node
           \<and> lwidth t = 600 \<and> lheight t = of_nat (estimateNodeHeight node)
           \<and> ldepth t = 0 \<and> lx t = 0 \<and> ly t = 0
           \<and> list_all2 (\<lambda>childId c. buildTree d ns childId = Inr c)
                 (filter (\<lambda>childId. ns childId \<noteq> None) (children node)) (lchildren t)"
proof (cases "ns rootId")
  case None
  then show ?thesis using assms by simp
next
  case (Some node)
  show ?thesis
  proof (cases "mapResult (\<lambda>childId. buildTree d ns childId)
                  (filter (\<lambda>childId. ns childId \<noteq> None) (children node))")
    case (Inl e)
    then show ?thesis using assms Some by simp
  next
    case (Inr cs)
    then have "t = LayoutNode (node_id node) node cs 0 0 0 600 (of_nat (estimateNodeHeight node))"
      using assms Some by simp
    then show ?thesis using Some mapResult_Inr [OF Inr] by simp
  qed
qed

lemma buildTree_widths:
  "buildTree depth ns rootId = Inr t \<Longrightarrow> m \<in> set (subtrees t) \<Longrightarrow> lwidth m = 600"
proof (induction depth arbitrary: rootId t)
  case 0
  then show ?case by simp
next
  case (Suc d)
  from buildTree_Suc_Inr [OF Suc.prems(1)] obtain node where
    all: "ns rootId = Some node \<and> lid t = node_id node \<and> lnode t = node
           \<and> lwidth t = 600 \<and> lheight t = of_nat (estimateNodeHeight node)
           \<and> ldepth t = 0 \<and> lx t = 0 \<and> ly t = 0
           \<and> list_all2 (\<lambda>childId c. buildTree d ns childId = Inr c)
                 (filter (\<lambda>childId. ns childId \<noteq> None) (children node)) (lchildren t)" ..
  then have w: "lwidth t = 600" and
    cs: "list_all2 (\<lambda>childId c. buildTree d ns childId = Inr c)
        (filter (\<lambda>childId. ns childId \<noteq> None) (children node)) (lchildren t)"
    by simp_all
  from Suc.prems(2) consider "m = t" | c where "c \<in> set (lchildren t)" "m \<in> set (subtrees c)"
    by (subst (asm) set_subtrees) auto
  then show ?case
  proof cases
    case 1
    then show ?thesis using w by simp
  next
    case 2
    from 2(1) obtain k where k: "k < length (lchildren t)" "lchildren t ! k = c"
      by (auto simp: in_set_conv_nth)
    from list_all2_nthD2 [OF cs k(1)] k(2)
    obtain childId where "buildTree d ns childId = Inr c"
      by auto
    then show ?thesis using Suc.IH 2(2) by blast
  qed
qed

lemma laidOut_default: "laidOut t defaultOptions = layoutTree t 300 50 0 100 80"
  by (simp add: laidOut_def defaultOptions_def)

text \<open>
  C7.  Let the tree built from the node map have pairwise distinct identifiers, and let \<open>p\<close> be
  any node of the laid-out tree with children number \<open>i\<close> and \<open>j\<close>, \<open>i < j\<close>.  Then \<open>autoLayout\<close>
  returns a position map that gives every node of the laid-out tree its coordinates, and with
  the default spacing of 100:
  \<^item> the extent of child \<open>i\<close> (the interval of width \<open>calculateSubtreeWidth\<close>, the maximum of
    the node width and the sum of the children's extents plus spacing, around the child's x)
    ends at least 100 before the extent of child \<open>j\<close> begins, so the two are disjoint;
  \<^item> every node in the subtree of a child lies, with its width of 600 around its x, inside
    the extent of that child, so the envelopes of two sibling subtrees do not meet;
  \<^item> the x of \<open>p\<close> is the midpoint of the span from the left end of the extent of its first
    child to the right end of the extent of its last child.
\<close>

theorem autoLayout_siblings_disjoint:
  assumes built: "buildTree depth ns rootId = Inr tree"
    and ids: "distinct (treeIds tree)"
    and p: "p \<in> set (subtrees (laidOut tree defaultOptions))"
    and ij: "i < j" "j < length (lchildren p)"
  shows "\<exists>positions. autoLayout depth ns rootId defaultOptions = Inr positions
     \<and> (\<forall>m \<in> set (subtrees (laidOut tree defaultOptions)).
            positions (lid m) = Some \<lparr>pos_x = lx m, pos_y = ly m\<rparr>)
     \<and> extentRight 100 (lchildren p ! i) + 100 \<le> extentLeft 100 (lchildren p ! j)
     \<and> (\<forall>k < length (lchildren p). \<forall>m \<in> set (subtrees (lchildren p ! k)).
            extentLeft 100 (lchildren p ! k) \<le> lx m - 300
          \<and> lx m + 300 \<le> extentRight 100 (lchildren p ! k))
     \<and> lx p = (extentLeft 100 (hd (lchildren p)) + extentRight 100 (last (lchildren p))) / 2"
proof -
  let ?T = "laidOut tree defaultOptions"
  let ?positions = "collectPositions ?T Map.empty"
  have auto_eq: "autoLayout depth ns rootId defaultOptions = Inr ?positions"
    using built by (simp add: autoLayout_def)
  have "distinct (treeIds ?T)" using ids by (simp add: laidOut_default)
  then have placed: "\<forall>m \<in> set (subtrees ?T). ?positions (lid m) = Some \<lparr>pos_x = lx m, pos_y = ly m\<rparr>"
    using collectPositions_lookup by blast
  from p obtain t' x' y' d' where t': "t' \<in> set (subtrees tree)" "p = layoutTree t' x' y' d' 100 80"
    using subtrees_laid_out [of p tree 300 50 0 100 80] by (auto simp: laidOut_default)
  have w600: "\<forall>m \<in> set (subtrees t'). lwidth m = 600"
    using buildTree_widths [OF built] subtrees_trans [OF t'(1)] by blast
  have len: "length (lchildren p) = length (lchildren t')" using t'(2) by simp
  have cnn: "\<forall>c \<in> set (lchildren t'). 0 \<le> lwidth c"
  proof
    fix c assume "c \<in> set (lchildren t')"
    then have "c \<in> set (subtrees t')" using subtrees_child_subset [of c t'] by auto
    then show "0 \<le> lwidth c" using w600 by simp
  qed
  have apart: "extentRight 100 (lchildren p ! i) + 100 \<le> extentLeft 100 (lchildren p ! j)"
    using siblings_apart [of 100 t' i j x' y' d' 80] cnn ij len t'(2) by simp
  have inside: "extentLeft 100 (lchildren p ! k) \<le> lx m - 300 \<and> lx m + 300 \<le> extentRight 100 (lchildren p ! k)"
    if k: "k < length (lchildren p)" and m: "m \<in> set (subtrees (lchildren p ! k))" for k m
  proof -
    let ?c = "lchildren t' ! k"
    let ?cx = "x' - totalWidth 100 (lchildren t') / 2 + offset 100 (lchildren t') k
                + calculateSubtreeWidth ?c 100 / 2"
    have k': "k < length (lchildren t')" using k len by simp
    have ch: "lchildren p ! k = layoutTree ?c ?cx (y' + lheight t' + 80) (d' + 1) 100 80"
      using layoutTree_children [OF k', of x' y' d' 100 80] t'(2) by simp
    have cin: "?c \<in> set (subtrees t')"
      using k' subtrees_child_subset [of ?c t'] by auto
    have sub: "\<forall>m' \<in> set (subtrees ?c). 0 \<le> lwidth m'"
    proof
      fix m' assume "m' \<in> set (subtrees ?c)"
      then have "m' \<in> set (subtrees t')" using subtrees_trans [OF cin] by blast
      then show "0 \<le> lwidth m'" using w600 by simp
    qed
    have m': "m \<in> set (subtrees (layoutTree ?c ?cx (y' + lheight t' + 80) (d' + 1) 100 80))"
      using m ch by simp
    from subtrees_laid_out [OF m'] obtain t'' x'' y'' d''
      where "t'' \<in> set (subtrees ?c)" "m = layoutTree t'' x'' y'' d'' 100 80" by blast
    then have "lwidth m = 600" using subtrees_trans [OF cin] w600 by auto
    moreover have "?cx - calculateSubtreeWidth ?c 100 / 2 \<le> lx m - lwidth m / 2
       \<and> lx m + lwidth m / 2 \<le> ?cx + calculateSubtreeWidth ?c 100 / 2"
      by (rule extent_contains [OF _ sub m']) simp
    ultimately show ?thesis
      by (simp add: ch extentLeft_def extentRight_def)
  qed
  have centre: "lx p = (extentLeft 100 (hd (lchildren p)) + extentRight 100 (last (lchildren p))) / 2"
  proof -
    have "lchildren t' \<noteq> []" using ij len by auto
    from parent_centred [OF this, of x' y' d' 100 80] show ?thesis using t'(2) by simp
  qed
  show ?thesis using auto_eq placed apart inside centre by blast
qed

lemma layoutExample_tree:
  "buildTree 5 layoutExample (js ''root'') = Inr layoutExampleTree"
  by code_simp

theorem autoLayout_siblings_disjoint_witness:
  "buildTree 5 layoutExample (js ''root'') = Inr layoutExampleTree
   \<and> distinct (treeIds layoutExampleTree)
   \<and> (\<exists>positions. autoLayout 5 layoutExample (js ''root'') defaultOptions = Inr positions
          \<and> extentRight 100 (lchildren (laidOut layoutExampleTree defaultOptions) ! 0) + 100
                \<le> extentLeft 100 (lchildren (laidOut layoutExampleTree defaultOptions) ! 1))"
proof -
  let ?p = "laidOut layoutExampleTree defaultOptions"
  have ids: "distinct (treeIds layoutExampleTree)" by code_simp
  have p: "?p \<in> set (subtrees ?p)" by simp
  have j: "1 < length (lchildren ?p)"
    by (simp add: laidOut_default layoutExampleTree_def)
  from autoLayout_siblings_disjoint [OF layoutExample_tree ids p _ j, of 0]
  show ?thesis using layoutExample_tree ids by auto
qed

lemma forgetNode_fields [simp]:
  "lid (forgetNode t) = lid t" "lx (forgetNode t) = lx t" "ly (forgetNode t) = ly t"
  "ldepth (forgetNode t) = ldepth t" "lwidth (forgetNode t) = lwidth t"
  "lheight (forgetNode t) = lheight t" "lnode (forgetNode t) = blankNode"
  "lchildren (forgetNode t) = map forgetNode (lchildren t)"
  by (cases t; simp)+

declare forgetNode.simps [simp del]

lemma width_forgetNode [simp]:
  "calculateSubtreeWidth (forgetNode t) hs = calculateSubtreeWidth t hs"
proof (induction t)
  case (LayoutNode i n cs d x y w h)
  have "map (\<lambda>c. calculateSubtreeWidth (forgetNode c) hs) cs = map (\<lambda>c. calculateSubtreeWidth c hs) cs"
    using LayoutNode.IH by simp
  then have "sum_list (map (\<lambda>c. calculateSubtreeWidth (forgetNode c) hs) cs)
               = sum_list (map (\<lambda>c. calculateSubtreeWidth c hs) cs)"
    by (rule arg_cong)
  then show ?case
    by (simp add: calculateSubtreeWidth_eq [of "forgetNode (LayoutNode i n cs d x y w h)"]
          calculateSubtreeWidth_eq [of "LayoutNode i n cs d x y w h"] comp_def)
qed

lemma totalWidth_forgetNode [simp]: "totalWidth hs (map forgetNode cs) = totalWidth hs cs"
  by (simp add: totalWidth_def comp_def)

lemma offset_forgetNode [simp]: "offset hs (map forgetNode cs) k = offset hs cs k"
  by (simp add: offset_def take_map comp_def)

lemma layoutTree_leaf:
  "lchildren t = [] \<Longrightarrow> layoutTree t x y d hs vs = LayoutNode (lid t) (lnode t) [] d x y (lwidth t) (lheight t)"
  by (cases t) (simp add: layoutTree.simps)

lemma forgetNode_layoutTree:
  "forgetNode (layoutTree t x y d hs vs) = layoutTree (forgetNode t) x y d hs vs"
proof (induction t arbitrary: x y d)
  case (LayoutNode i n cs d0 x0 y0 w h)
  let ?t = "LayoutNode i n cs d0 x0 y0 w h"
  have "map forgetNode (lchildren (layoutTree ?t x y d hs vs)) = lchildren (layoutTree (forgetNode ?t) x y d hs vs)"
  proof (rule nth_equalityI)
    show "length (map forgetNode (lchildren (layoutTree ?t x y d hs vs)))
            = length (lchildren (layoutTree (forgetNode ?t) x y d hs vs))"
      by simp
  next
    fix k assume "k < length (map forgetNode (lchildren (layoutTree ?t x y d hs vs)))"
    then have k: "k < length cs" by simp
    then have "cs ! k \<in> set cs" by simp
    from LayoutNode.IH [OF this] k
    show "map forgetNode (lchildren (layoutTree ?t x y d hs vs)) ! k
            = lchildren (layoutTree (forgetNode ?t) x y d hs vs) ! k"
      by (simp add: layoutTree_children)
  qed
  then show ?case
    by (intro LayoutNode.expand) simp
qed

lemma subtrees_forgetNode: "subtrees (forgetNode t) = map forgetNode (subtrees t)"
proof (induction t)
  case (LayoutNode i n cs d x y w h)
  have "map (\<lambda>c. subtrees (forgetNode c)) cs = map (\<lambda>c. map forgetNode (subtrees c)) cs"
    using LayoutNode.IH by simp
  then have "concat (map (\<lambda>c. subtrees (forgetNode c)) cs)
               = concat (map (\<lambda>c. map forgetNode (subtrees c)) cs)"
    by (rule arg_cong)
  then show ?case
    by (simp add: subtrees_eq [of "forgetNode (LayoutNode i n cs d x y w h)"]
          subtrees_eq [of "LayoutNode i n cs d x y w h"] map_concat comp_def)
qed

lemma place_forgetNode [simp]: "place ps (forgetNode m) = place ps m"
  by (simp add: place_def)

lemma foldl_place_forgetNode: "foldl place ps (map forgetNode ms) = foldl place ps ms"
  by (induction ms arbitrary: ps) simp_all

lemma collectPositions_forgetNode: "collectPositions (forgetNode t) ps = collectPositions t ps"
  by (simp add: collectPositions_foldl subtrees_forgetNode foldl_place_forgetNode)

lemma positions_forget:
  "collectPositions (laidOut t options) ps = collectPositions (laidOut (forgetNode t) options) ps"
  using collectPositions_forgetNode [of "laidOut t options" ps]
  by (simp add: laidOut_def forgetNode_layoutTree)

lemma estimateNodeHeight_cong:
  assumes "type n = type n'" "userMessage n = userMessage n'"
    "assistantMessage n = assistantMessage n'" "thinkingContent n = thinkingContent n'"
  shows "estimateNodeHeight n = estimateNodeHeight n'"
  using assms by (simp add: estimateNodeHeight_def)

lemma mapResult_forget:
  assumes "\<And>a. a \<in> set xs \<Longrightarrow> map_sum id forgetNode (f a) = map_sum id forgetNode (g a)"
  shows "map_sum id (map forgetNode) (mapResult f xs) = map_sum id (map forgetNode) (mapResult g xs)"
  using assms
proof (induction xs)
  case Nil
  then show ?case by simp
next
  case (Cons a xs)
  have a: "map_sum id forgetNode (f a) = map_sum id forgetNode (g a)"
    by (rule Cons.prems) simp
  have r: "map_sum id (map forgetNode) (mapResult f xs) = map_sum id (map forgetNode) (mapResult g xs)"
    by (rule Cons.IH, rule Cons.prems, simp)
  show ?case
  proof (cases "f a")
    case (Inl e)
    then have "g a = Inl e" using a by (cases "g a") simp_all
    then show ?thesis using Inl by simp
  next
    case (Inr b)
    then obtain b' where b': "g a = Inr b'" "forgetNode b = forgetNode b'"
      using a by (cases "g a") simp_all
    show ?thesis
    proof (cases "mapResult f xs")
      case (Inl e)
      then have "mapResult g xs = Inl e" using r by (cases "mapResult g xs") simp_all
      then show ?thesis using Inl Inr b' by simp
    next
      case bs: (Inr bs)
      then obtain bs' where "mapResult g xs = Inr bs'" "map forgetNode bs = map forgetNode bs'"
        using r by (cases "mapResult g xs") simp_all
      then show ?thesis using bs Inr b' by simp
    qed
  qed
qed

lemma buildTree_sameContent:
  assumes "sameContent ns ns'"
  shows "map_sum id forgetNode (buildTree depth ns rootId) = map_sum id forgetNode (buildTree depth ns' rootId)"
proof (induction depth arbitrary: rootId)
  case 0
  then show ?case by simp
next
  case (Suc d)
  have rel: "rel_option (\<lambda>n n'. node_id n = node_id n' \<and> children n = children n' \<and> type n = type n'
                \<and> userMessage n = userMessage n' \<and> assistantMessage n = assistantMessage n'
                \<and> thinkingContent n = thinkingContent n') (ns k) (ns' k)" for k
    using assms by (simp add: sameContent_def)
  have dom: "(ns k \<noteq> None) = (ns' k \<noteq> None)" for k
    using rel [of k] by (cases "ns k"; cases "ns' k") simp_all
  show ?case
  proof (cases "ns rootId")
    case None
    then have "ns' rootId = None" using dom [of rootId] by simp
    then show ?thesis using None by simp
  next
    case (Some n)
    then obtain n' where n': "ns' rootId = Some n'" using dom [of rootId] by auto
    have fields: "node_id n = node_id n'" "children n = children n'" "type n = type n'"
      "userMessage n = userMessage n'" "assistantMessage n = assistantMessage n'"
      "thinkingContent n = thinkingContent n'"
      using rel [of rootId] Some n' by simp_all
    have same: "node_id n = node_id n'" "children n = children n'"
      "estimateNodeHeight n = estimateNodeHeight n'"
      using fields by (simp_all add: estimateNodeHeight_def)
    have filt: "filter (\<lambda>childId. ns childId \<noteq> None) (children n)
                 = filter (\<lambda>childId. ns' childId \<noteq> None) (children n')"
      using dom same(2) by simp
    have kids: "map_sum id (map forgetNode)
                  (mapResult (\<lambda>childId. buildTree d ns childId) (filter (\<lambda>childId. ns childId \<noteq> None) (children n)))
              = map_sum id (map forgetNode)
                  (mapResult (\<lambda>childId. buildTree d ns' childId) (filter (\<lambda>childId. ns' childId \<noteq> None) (children n')))"
      unfolding filt by (rule mapResult_forget) (rule Suc.IH)
    show ?thesis
    proof (cases "mapResult (\<lambda>childId. buildTree d ns childId) (filter (\<lambda>childId. ns childId \<noteq> None) (children n))")
      case (Inl e)
      then have "mapResult (\<lambda>childId. buildTree d ns' childId) (filter (\<lambda>childId. ns' childId \<noteq> None) (children n')) = Inl e"
        using kids by (cases "mapResult (\<lambda>childId. buildTree d ns' childId) (filter (\<lambda>childId. ns' childId \<noteq> None) (children n'))") simp_all
      then show ?thesis using Inl Some n' by simp
    next
      case (Inr cs)
      then obtain cs' where cs': "mapResult (\<lambda>childId. buildTree d ns' childId) (filter (\<lambda>childId. ns' childId \<noteq> None) (children n')) = Inr cs'"
        "map forgetNode cs = map forgetNode cs'"
        using kids by (cases "mapResult (\<lambda>childId. buildTree d ns' childId) (filter (\<lambda>childId. ns' childId \<noteq> None) (children n'))") simp_all
      then show ?thesis using Inr Some n' same by (simp add: forgetNode.simps)
    qed
  qed
qed

lemma autoLayout_sameContent:
  assumes "sameContent ns ns'"
  shows "autoLayout depth ns rootId options = autoLayout depth ns' rootId options"
proof -
  note eq = buildTree_sameContent [OF assms, of depth rootId]
  show ?thesis
  proof (cases "buildTree depth ns rootId")
    case (Inl e)
    then have "buildTree depth ns' rootId = Inl e"
      using eq by (cases "buildTree depth ns' rootId") simp_all
    then show ?thesis using Inl by (simp add: autoLayout_def)
  next
    case (Inr t)
    then obtain t' where t': "buildTree depth ns' rootId = Inr t'" "forgetNode t = forgetNode t'"
      using eq by (cases "buildTree depth ns' rootId") simp_all
    have "collectPositions (laidOut t options) Map.empty = collectPositions (laidOut t' options) Map.empty"
      using positions_forget [of t] positions_forget [of t'] t'(2) by simp
    then show ?thesis using Inr t'(1) by (simp add: autoLayout_def)
  qed
qed

lemma sameContent_withPositions: "sameContent (withPositions newPositions ns) ns"
  by (auto simp: sameContent_def withPositions_def split: option.splits)

lemma autoLayout_root_only:
  assumes "ns rootId = Some n" "\<forall>c \<in> set (children n). ns c = None"
  shows "autoLayout (Suc depth) ns rootId defaultOptions
           = Inr [node_id n \<mapsto> \<lparr>pos_x = 300, pos_y = 50\<rparr>]"
proof -
  have "filter (\<lambda>childId. ns childId \<noteq> None) (children n) = []"
    using assms(2) by (simp add: filter_empty_conv)
  then show ?thesis
    using assms(1) by (simp add: autoLayout_def laidOut_default layoutTree.simps)
qed

text \<open>
  C8.  The position map depends only on what the layout reads: two node maps with the same
  content and shape get the same result, for every depth bound, root and options.  In
  particular the positions stored in the nodes do not matter, so running the layout again
  after its positions have been written into the nodes returns the same position map.  A
  node map in which no child of the root is stored gets the single position (300, 50).
\<close>

theorem autoLayout_deterministic:
  "(sameContent ns ns' \<longrightarrow> autoLayout depth ns rootId options = autoLayout depth ns' rootId options)
   \<and> autoLayout depth (withPositions newPositions ns) rootId options = autoLayout depth ns rootId options
   \<and> (ns rootId = Some n \<and> (\<forall>c \<in> set (children n). ns c = None)
        \<longrightarrow> autoLayout (Suc depth') ns rootId defaultOptions
              = Inr [node_id n \<mapsto> \<lparr>pos_x = 300, pos_y = 50\<rparr>])"
  using autoLayout_sameContent autoLayout_sameContent [OF sameContent_withPositions] autoLayout_root_only
  by blast


theorem autoLayout_deterministic_witness:
  "sameContent (withPositions [js ''root'' \<mapsto> \<lparr>pos_x = 7, pos_y = 9\<rparr>] rootOnly) rootOnly
   \<and> autoLayout 1 (withPositions [js ''root'' \<mapsto> \<lparr>pos_x = 7, pos_y = 9\<rparr>] rootOnly) (js ''root'') defaultOptions
       = autoLayout 1 rootOnly (js ''root'') defaultOptions
   \<and> autoLayout 1 rootOnly (js ''root'') defaultOptions
       = Inr [js ''root'' \<mapsto> \<lparr>pos_x = 300, pos_y = 50\<rparr>]"
proof -
  let ?P = "[js ''root'' \<mapsto> \<lparr>pos_x = 7, pos_y = 9\<rparr>]"
  have same: "sameContent (withPositions ?P rootOnly) rootOnly"
    by (rule sameContent_withPositions)
  have root: "rootOnly (js ''root'') = Some (rootNode 1) \<and> (\<forall>c \<in> set (children (rootNode 1)). rootOnly c = None)"
    by (simp add: rootOnly_def rootNode_def)
  have r: "autoLayout (Suc 0) rootOnly (js ''root'') defaultOptions
             = Inr [node_id (rootNode 1) \<mapsto> \<lparr>pos_x = 300, pos_y = 50\<rparr>]"
    using autoLayout_deterministic [of rootOnly rootOnly 1 "js ''root''" defaultOptions
      ?P "rootNode 1" 0] root by blast
  have i: "autoLayout 1 (withPositions ?P rootOnly) (js ''root'') defaultOptions
             = autoLayout 1 rootOnly (js ''root'') defaultOptions"
    using autoLayout_deterministic [of "withPositions ?P rootOnly" rootOnly 1 "js ''root''"
      defaultOptions ?P "rootNode 1" 0] same by blast
  show ?thesis using same r i by (simp add: rootNode_def)
qed

text \<open>
  \<open>rearrangeNodes\<close> is idempotent on the nodes: once it has written the positions of the
  layout, running it again leaves the nodes of the current session as they are.
\<close>

lemma withPositions_idem: "withPositions P (withPositions P ns) = withPositions P ns"
  by (auto simp: withPositions_def fun_eq_iff split: option.splits)

lemma rearrangeNodes_idempotent:
  assumes "rearrangeNodes depth True now w = Inr w1"
  shows "\<exists>w2. rearrangeNodes depth ok' now' w1 = Inr w2 \<and> currentNodes w2 = currentNodes w1"
proof (cases "currentSession (store w)")
  case None
  then have "w1 = w" using assms by (simp add: rearrangeNodes_def Let_def)
  then show ?thesis using None by (simp add: rearrangeNodes_def Let_def)
next
  case (Some cs)
  show ?thesis
  proof (cases "truthy (currentSessionId (store w))")
    case False
    then have "w1 = w" using assms Some by (simp add: rearrangeNodes_def Let_def)
    then show ?thesis using Some False by (simp add: rearrangeNodes_def Let_def)
  next
    case True
    from assms Some True obtain P where
      P: "autoLayout depth (nodes cs) (rootNodeId cs) defaultOptions = Inr P"
      by (cases "autoLayout depth (nodes cs) (rootNodeId cs) defaultOptions")
         (simp_all add: rearrangeNodes_def Let_def)
    let ?cs1 = "cs\<lparr>nodes := withPositions P (nodes cs), updatedAt := now\<rparr>"
    have w1: "currentSession (store w1) = Some ?cs1" "currentSessionId (store w1) = currentSessionId (store w)"
      using assms Some True P by (auto simp: rearrangeNodes_def Let_def)
    have again: "autoLayout depth (nodes ?cs1) (rootNodeId ?cs1) defaultOptions = Inr P"
      using P autoLayout_sameContent [OF sameContent_withPositions, of depth P "nodes cs" "rootNodeId cs" defaultOptions]
      by simp
    show ?thesis
      using w1 True again
      by (cases ok') (simp_all add: rearrangeNodes_def Let_def currentNodes_def withPositions_idem)
  qed
qed
section \<open>Default-model exclusivity\<close>

lemma defaultConfigs_setDefault:
  "defaultConfigs (setDefaultModelConfig i db)
     = map (\<lambda>row. row\<lparr>isDefault := 1\<rparr>) (filter (\<lambda>row. config_id row = i) db)"
  by (induction db)
     (simp_all add: defaultConfigs_def setDefaultModelConfig_def markDefault_def clearDefaults_def)

lemma filter_key_distinct:
  assumes "distinct (map config_id db)" "b \<in> set db"
  shows "filter (\<lambda>row. config_id row = config_id b) db = [b]"
  using assms
proof (induction db)
  case Nil
  then show ?case by simp
next
  case (Cons a db)
  show ?case
  proof (cases "a = b")
    case True
    have "config_id b \<notin> config_id ` set db"
      using Cons.prems(1) True by simp
    then have "\<forall>row \<in> set db. config_id row \<noteq> config_id b"
      by (metis imageI)
    then have "filter (\<lambda>row. config_id row = config_id b) db = []"
      by (simp add: filter_empty_conv)
    then show ?thesis using True by simp
  next
    case False
    then have "b \<in> set db" using Cons.prems(2) by simp
    moreover have "config_id a \<noteq> config_id b"
      using Cons.prems(1) \<open>b \<in> set db\<close> by auto
    ultimately show ?thesis using Cons by simp
  qed
qed

text \<open>
  C9.  Whatever the flags were before (so also when another configuration A was the default),
  after \<open>setDefaultModelConfig\<close> for the identifier of an existing configuration B, in a table
  whose identifiers are distinct (\<open>id\<close> is the primary key), exactly one row has the default
  flag set, and it is the row of B; every other row has the flag 0.
\<close>

theorem setDefaultModelConfig_exclusive:
  assumes "distinct (map config_id db)" and "b \<in> set db"
  shows "defaultConfigs (setDefaultModelConfig (config_id b) db) = [b\<lparr>isDefault := 1\<rparr>]
       \<and> (\<forall>row \<in> set (setDefaultModelConfig (config_id b) db).
             config_id row \<noteq> config_id b \<longrightarrow> isDefault row = 0)
       \<and> map config_id (setDefaultModelConfig (config_id b) db) = map config_id db"
proof -
  have "defaultConfigs (setDefaultModelConfig (config_id b) db) = [b\<lparr>isDefault := 1\<rparr>]"
    using assms by (simp add: defaultConfigs_setDefault filter_key_distinct)
  moreover have "\<forall>row \<in> set (setDefaultModelConfig (config_id b) db).
             config_id row \<noteq> config_id b \<longrightarrow> isDefault row = 0"
    by (auto simp: setDefaultModelConfig_def markDefault_def clearDefaults_def)
  moreover have "map config_id (setDefaultModelConfig (config_id b) db) = map config_id db"
    by (simp add: setDefaultModelConfig_def markDefault_def clearDefaults_def comp_def)
  ultimately show ?thesis by blast
qed

theorem setDefaultModelConfig_exclusive_witness:
  "map config_id (defaultConfigs
      (setDefaultModelConfig (js ''B'') [exampleConfig (js ''A'') 1, exampleConfig (js ''B'') 0]))
     = [js ''B'']"
proof -
  let ?db = "[exampleConfig (js ''A'') 1, exampleConfig (js ''B'') 0]"
  have d: "distinct (map config_id ?db)" by (simp add: exampleConfig_def js_def)
  have m: "exampleConfig (js ''B'') 0 \<in> set ?db" by simp
  have i: "config_id (exampleConfig (js ''B'') 0) = js ''B''" by (simp add: exampleConfig_def)
  from setDefaultModelConfig_exclusive [OF d m] i show ?thesis by simp
qed

end
